theory Spec2Isabelle
  imports Main
begin

section \<open>Progress tracking: data model\<close>

text \<open>
  Embedding of \<^verbatim>\<open>src/utils/progressTracking.ts\<close> (class \<^verbatim>\<open>ProgressTracker\<close>).
  JavaScript numbers that the module only ever fills with integers (progress percentages,
  emotion intensities, percentages) are \<^typ>\<open>int\<close>; JavaScript strings are
  \<^typ>\<open>string\<close>, a \<^typ>\<open>char\<close> standing for one code unit below 256.
  Fields called \<^verbatim>\<open>text\<close> and \<^verbatim>\<open>value\<close> in the source are
  \<open>msg_text\<close> and \<open>emotion_value\<close> here; field names shared by several interfaces
  are written with the record's name in front.  Calls of \<^verbatim>\<open>console.error\<close> are
  left out, and so are the constructor and the methods that \<^verbatim>\<open>endSession\<close> does not
  reach (\<^verbatim>\<open>trackProgress\<close>, \<^verbatim>\<open>trackProgressManual\<close> and their parsers).
\<close>

datatype status = NotStarted | InProgress | Achieved

record Message =
  msg_text :: string
  timestamp :: string
  isUser :: bool

record EmotionData =
  timestamp :: string
  emotion_value :: int
  emotion :: string

record DominantEmotion =
  emotion :: string
  percentage :: int

text \<open>The anonymous element type of the array that \<^verbatim>\<open>analyzeGoals\<close> returns.\<close>

record ExtractedGoal =
  title :: string
  description :: string
  progress :: int
  status :: status

record Goal =
  goal :: string
  progress :: int
  status :: status

record Improvements =
  strengths :: "string list"
  challenges :: "string list"
  recommendations :: "string list"

text \<open>The result type of \<^verbatim>\<open>analyzeEmotions\<close>.\<close>

record EmotionalAnalysis =
  emotions :: "EmotionData list"
  dominantEmotions :: "DominantEmotion list"

text \<open>
  An entry of \<^verbatim>\<open>engagementLevel\<close>: a number, which
  \<^verbatim>\<open>averageEngagementLevels\<close> can make \<^verbatim>\<open>NaN\<close> (0 / 0).
\<close>

datatype number = NaN | Num int

record EmotionalJourney =
  emotions :: "EmotionData list"
  dominantEmotions :: "DominantEmotion list"
  engagementLevel :: "number list"

record ProgressData =
  sessionSummary :: string
  goals :: "Goal list"
  improvements :: Improvements
  timestamp :: string
  emotionalJourney :: EmotionalJourney

text \<open>
  \<^verbatim>\<open>parseAnalysisResponse\<close> can leave \<^verbatim>\<open>undefined\<close> in the two list fields
  (an optional chain that short-circuits): \<^term>\<open>None\<close>.
\<close>

record SessionAnalysis =
  emotionalState :: string
  keyTopics :: "string list option"
  insights :: "string list option"

section \<open>Strings\<close>

definition isDigit :: "char \<Rightarrow> bool" where
  \<comment> \<open>the regular expression class of decimal digits\<close>
  "isDigit c = (c \<in> set ''0123456789'')"

definition isWordChar :: "char \<Rightarrow> bool" where
  \<comment> \<open>the regular expression class of word characters\<close>
  "isWordChar c =
     (c \<in> set ''abcdefghijklmnopqrstuvwxyzABCDEFGHIJKLMNOPQRSTUVWXYZ0123456789_'')"

definition isLineTerminator :: "char \<Rightarrow> bool" where
  \<comment> \<open>what the regular expression \<^verbatim>\<open>.\<close> does not match\<close>
  "isLineTerminator c = (c = CHR 0x0A \<or> c = CHR 0x0D)"

definition isWhiteSpace :: "char \<Rightarrow> bool" where
  \<comment> \<open>white space and line terminators: the regular expression's space class, and what
    \<^verbatim>\<open>trim\<close> strips\<close>
  "isWhiteSpace c =
     (c \<in> set [CHR 0x09, CHR 0x0A, CHR 0x0B, CHR 0x0C, CHR 0x0D, CHR 0x20, CHR 0xA0])"

definition digitValue :: "char \<Rightarrow> nat" where
  "digitValue c = of_char c - 48"

text \<open>
  \<^verbatim>\<open>parseInt\<close> on a string of decimal digits.  The source gets a double: this integer
  when it is below \<open>2^53\<close>, and above that a double of at least \<open>2^53\<close> near it
  (infinity from about 309 digits on), which the clamp to 100 treats like the integer.
  Where the source does not clamp (the percentage of a dominant emotion, the value of an
  emotion) the embedding is exact from \<open>2^53\<close> on and the source is not.
\<close>

definition digitsToNat :: "string \<Rightarrow> nat" where
  "digitsToNat ds = foldl (\<lambda>a c. 10 * a + digitValue c) 0 ds"

text \<open>
  \<^verbatim>\<open>parseInt(s, 10)\<close>: leading white space, an optional sign, then the longest run of
  digits; \<^term>\<open>None\<close> is \<^verbatim>\<open>NaN\<close>.
\<close>

definition parseInt10 :: "string \<Rightarrow> int option" where
  "parseInt10 s =
     (let s1 = dropWhile isWhiteSpace s;
          negative = (s1 \<noteq> [] \<and> hd s1 = CHR ''-'');
          s2 = (if s1 \<noteq> [] \<and> (hd s1 = CHR ''-'' \<or> hd s1 = CHR ''+'') then tl s1 else s1);
          ds = takeWhile isDigit s2
      in if ds = [] then None
         else Some (if negative then - int (digitsToNat ds) else int (digitsToNat ds)))"

definition startsWith :: "string \<Rightarrow> string \<Rightarrow> bool" where
  "startsWith s p = (take (length p) s = p)"

fun includesStr :: "string \<Rightarrow> string \<Rightarrow> bool" where
  "includesStr [] p = (p = [])"
| "includesStr (c # cs) p = (startsWith (c # cs) p \<or> includesStr cs p)"

definition trim :: "string \<Rightarrow> string" where
  "trim s = rev (dropWhile isWhiteSpace (rev (dropWhile isWhiteSpace s)))"

text \<open>
  \<^verbatim>\<open>s.split(sep)\<close> for a separator string, which is never empty in this module:
  \<open>cur\<close> is the piece being read.  After a separator found at \<open>c # cs\<close> the scan goes on
  behind it, at \<open>drop (length sep - 1) cs\<close>.
\<close>

fun splitAcc :: "string \<Rightarrow> string \<Rightarrow> string \<Rightarrow> string list" where
  "splitAcc sep cur [] = [cur]"
| "splitAcc sep cur (c # cs) =
     (if sep \<noteq> [] \<and> startsWith (c # cs) sep
      then cur # splitAcc sep [] (drop (length sep - 1) cs)
      else splitAcc sep (cur @ [c]) cs)"

definition splitStr :: "string \<Rightarrow> string \<Rightarrow> string list" where
  "splitStr sep s = splitAcc sep [] s"

fun joinStr :: "string \<Rightarrow> string list \<Rightarrow> string" where
  "joinStr sep [] = []"
| "joinStr sep [x] = x"
| "joinStr sep (x # y # ys) = x @ sep @ joinStr sep (y # ys)"

text \<open>\<^verbatim>\<open>s.replace(p, '')\<close> for a non-empty string \<open>p\<close>: the first occurrence goes.\<close>

fun removeFirst :: "string \<Rightarrow> string \<Rightarrow> string" where
  "removeFirst p [] = []"
| "removeFirst p (c # cs) =
     (if startsWith (c # cs) p then drop (length p) (c # cs) else c # removeFirst p cs)"

definition toLowerChar :: "char \<Rightarrow> char" where
  "toLowerChar c =
     (let n = (of_char c :: nat)
      in if (65 \<le> n \<and> n \<le> 90) \<or> (192 \<le> n \<and> n \<le> 222 \<and> n \<noteq> 215)
         then char_of (n + 32) else c)"

definition toLowerCase :: "string \<Rightarrow> string" where
  "toLowerCase s = map toLowerChar s"

text \<open>Array destructuring and \<^verbatim>\<open>a[i]\<close>: \<^term>\<open>None\<close> is \<^verbatim>\<open>undefined\<close>.\<close>

definition elemAt :: "'a list \<Rightarrow> nat \<Rightarrow> 'a option" where
  "elemAt xs i = (if i < length xs then Some (xs ! i) else None)"

text \<open>
  \<^verbatim>\<open>xs.slice(start)\<close>, where a negative start counts from the end and both ends are
  clipped to the array.
\<close>

definition sliceFrom :: "int \<Rightarrow> 'a list \<Rightarrow> 'a list" where
  "sliceFrom start xs =
     (let n = int (length xs);
          k = (if start < 0 then max (n + start) 0 else min start n)
      in drop (nat k) xs)"

text \<open>\<^verbatim>\<open>xs.slice(i, j)\<close> for \<open>0 \<le> i \<le> j\<close>.\<close>

definition slice :: "nat \<Rightarrow> nat \<Rightarrow> 'a list \<Rightarrow> 'a list" where
  "slice i j xs = take (j - i) (drop i xs)"

section \<open>The model API, the store and the clock\<close>

datatype error = Error string

text \<open>
  What the code cannot decide is a parameter: the outcome of the \<open>k\<close>-th call of
  \<^verbatim>\<open>generateContent\<close> with its prompt (the response text, or a failure of the call or
  of \<^verbatim>\<open>response.text()\<close>), whether the \<open>k\<close>-th \<^verbatim>\<open>localStorage.getItem\<close> or
  \<^verbatim>\<open>setItem\<close> throws, and the time \<^verbatim>\<open>new Date().toISOString()\<close> reads.
\<close>

record env =
  generateContent_result :: "nat \<Rightarrow> string \<Rightarrow> error + string"
  getItem_result :: "nat \<Rightarrow> error option"
  setItem_result :: "nat \<Rightarrow> error option"
  now :: string

text \<open>
  What \<^verbatim>\<open>JSON.parse\<close> makes of the text stored under \<^verbatim>\<open>STORAGE_KEY\<close>, as far as
  the module looks at it: text that does not parse, a value that is no array, or an array.
  An element of the array either passes \<^verbatim>\<open>validateProgressData\<close> (and is then taken
  to be a \<^verbatim>\<open>ProgressData\<close>, as the source's types say), fails it, or makes it throw
  (\<^verbatim>\<open>null\<close>, or an \<^verbatim>\<open>improvements\<close> that is \<^verbatim>\<open>null\<close>).
\<close>

datatype item = Conforming ProgressData | NonConforming | Throwing

datatype payload = Malformed | NonArray | JsonArray "item list"

text \<open>
  The state: the prompts sent to the model so far, the item under the storage key
  (\<^term>\<open>None\<close>: no item, or the empty string), the numbers of \<^verbatim>\<open>getItem\<close> and
  \<^verbatim>\<open>setItem\<close> calls made, and the delays waited in \<^verbatim>\<open>setTimeout\<close>.
\<close>

record world =
  prompts :: "string list"
  storage :: "payload option"
  getItems :: nat
  setItems :: nat
  delays :: "nat list"

text \<open>
  An \<^verbatim>\<open>async\<close> method: from the state it starts in, the value its promise resolves to
  or the error it rejects with, and the state it leaves.  \<open>andThen\<close> is \<^verbatim>\<open>await\<close>
  followed by the rest of the body, \<open>tryCatch\<close> is \<^verbatim>\<open>try\<close> with its
  \<^verbatim>\<open>catch\<close> clause.
\<close>

type_synonym 'a io = "world \<Rightarrow> (error + 'a) \<times> world"

definition succeed :: "'a \<Rightarrow> 'a io" where
  "succeed v w = (Inr v, w)"

definition throw :: "error \<Rightarrow> 'a io" where
  "throw e w = (Inl e, w)"

definition andThen :: "'a io \<Rightarrow> ('a \<Rightarrow> 'b io) \<Rightarrow> 'b io" where
  "andThen m f w = (case m w of (Inl e, w') \<Rightarrow> (Inl e, w') | (Inr v, w') \<Rightarrow> f v w')"

definition tryCatch :: "'a io \<Rightarrow> (error \<Rightarrow> 'a io) \<Rightarrow> 'a io" where
  "tryCatch m handler w = (case m w of (Inl e, w') \<Rightarrow> handler e w' | (Inr v, w') \<Rightarrow> (Inr v, w'))"

definition lift :: "error + 'a \<Rightarrow> 'a io" where
  "lift r w = (r, w)"

definition generateContent :: "env \<Rightarrow> string \<Rightarrow> string io" where
  \<comment> \<open>\<^verbatim>\<open>this.model.generateContent(prompt)\<close> and \<^verbatim>\<open>result.response.text()\<close>\<close>
  "generateContent e prompt w =
     (generateContent_result e (length (prompts w)) prompt, w\<lparr>prompts := prompts w @ [prompt]\<rparr>)"

definition getItem :: "env \<Rightarrow> (payload option) io" where
  "getItem e w =
     (case getItem_result e (getItems w) of
        Some err \<Rightarrow> (Inl err, w\<lparr>getItems := Suc (getItems w)\<rparr>)
      | None \<Rightarrow> (Inr (storage w), w\<lparr>getItems := Suc (getItems w)\<rparr>))"

definition setItem :: "env \<Rightarrow> payload \<Rightarrow> unit io" where
  "setItem e p w =
     (case setItem_result e (setItems w) of
        Some err \<Rightarrow> (Inl err, w\<lparr>setItems := Suc (setItems w)\<rparr>)
      | None \<Rightarrow> (Inr (), w\<lparr>storage := Some p, setItems := Suc (setItems w)\<rparr>))"

definition setTimeout :: "nat \<Rightarrow> world \<Rightarrow> world" where
  "setTimeout ms w = w\<lparr>delays := delays w @ [ms]\<rparr>"

section \<open>ProgressTracker\<close>

definition MAX_RETRIES :: nat where
  "MAX_RETRIES = 3"

definition RETRY_DELAY :: nat where
  "RETRY_DELAY = 1000"

subsection \<open>retryOperation\<close>

text \<open>
  The budget \<^verbatim>\<open>retries\<close> starts at \<^verbatim>\<open>MAX_RETRIES\<close> in every call of the source
  and counts down to 0: a natural number.
\<close>

fun retryOperation :: "'a io \<Rightarrow> nat \<Rightarrow> 'a io" where
  "retryOperation operation retries w =
     (case operation w of
        (Inr v, w') \<Rightarrow> (Inr v, w')
      | (Inl error, w') \<Rightarrow>
          (if retries > 0
           then retryOperation operation (retries - 1) (setTimeout RETRY_DELAY w')
           else (Inl error, w')))"

declare retryOperation.simps [simp del]

subsection \<open>validateProgressData, saveProgress, getProgressHistory, getLatestProgress\<close>

fun validateProgressData :: "item \<Rightarrow> error + bool" where
  "validateProgressData (Conforming d) = Inr True"
| "validateProgressData NonConforming = Inr False"
| "validateProgressData Throwing = Inl (Error ''TypeError'')"

text \<open>\<^verbatim>\<open>parsedData.filter(item => this.validateProgressData(item))\<close>\<close>

fun filterValid :: "item list \<Rightarrow> error + ProgressData list" where
  "filterValid [] = Inr []"
| "filterValid (x # xs) =
     (case validateProgressData x of
        Inl e \<Rightarrow> Inl e
      | Inr ok \<Rightarrow>
          (case filterValid xs of
             Inl e \<Rightarrow> Inl e
           | Inr ys \<Rightarrow> Inr (case x of Conforming d \<Rightarrow> if ok then d # ys else ys | _ \<Rightarrow> ys)))"

definition jsonParse :: "payload \<Rightarrow> error + payload" where
  "jsonParse p = (case p of Malformed \<Rightarrow> Inl (Error ''SyntaxError'') | _ \<Rightarrow> Inr p)"

definition getProgressHistory :: "env \<Rightarrow> (ProgressData list) io" where
  "getProgressHistory e =
     tryCatch
       (andThen (getItem e) (\<lambda>data.
          case data of
            None \<Rightarrow> succeed []
          | Some p \<Rightarrow>
              andThen (lift (jsonParse p)) (\<lambda>parsedData.
                case parsedData of
                  JsonArray items \<Rightarrow> lift (filterValid items)
                | _ \<Rightarrow> succeed [])))
       (\<lambda>error. succeed [])"

definition saveProgress :: "env \<Rightarrow> ProgressData \<Rightarrow> unit io" where
  "saveProgress e progressData =
     tryCatch
       (andThen (lift (validateProgressData (Conforming progressData))) (\<lambda>valid.
          if \<not> valid then throw (Error ''Invalid progress data format'')
          else
            andThen (getProgressHistory e) (\<lambda>existingData.
              let updatedData = existingData @ [progressData];
                  limitedData = sliceFrom (- 50) updatedData
              in retryOperation (setItem e (JsonArray (map Conforming limitedData))) MAX_RETRIES)))
       (\<lambda>error. throw (Error ''Failed to save progress data''))"

definition getLatestProgress :: "env \<Rightarrow> (ProgressData option) io" where
  "getLatestProgress e =
     andThen (getProgressHistory e) (\<lambda>history.
       succeed (if length history > 0 then Some (history ! (length history - 1)) else None))"

subsection \<open>Prompts\<close>

text \<open>The conversation as the prompts embed it.\<close>

definition transcript :: "Message list \<Rightarrow> string" where
  "transcript messages =
     joinStr ''\<newline>''
       (map (\<lambda>m. (if isUser m then ''User'' else ''Dr. Sky'') @ '': '' @ msg_text m) messages)"

definition emotionTranscript :: "Message list \<Rightarrow> string" where
  "emotionTranscript messages =
     (let userMessages = filter isUser messages
      in joinStr ''\<newline>'' (map (\<lambda>m. Message.timestamp m @ '': '' @ msg_text m) userMessages))"

definition emotionPrompt :: "Message list \<Rightarrow> string" where
  "emotionPrompt messages =
     ''\<newline>'' @
     ''      Analyze the emotional content of these messages and provide:\<newline>'' @
     ''      1. Emotional state for each message (format: timestamp|emotion|intensity)\<newline>'' @
     ''      2. Distribution of dominant emotions (in percentages)\<newline>'' @
     ''\<newline>'' @
     ''      Messages:\<newline>'' @
     ''      '' @
     emotionTranscript messages @
     ''\<newline>'' @
     ''    ''"

definition engagementPrompt :: "Message list \<Rightarrow> string" where
  "engagementPrompt messages =
     ''\<newline>'' @
     ''      Analyze this therapy conversation and rate the following aspects from 0-100.\<newline>'' @
     ''      Return ONLY the five numbers separated by commas in this exact order:\<newline>'' @
     ''\<newline>'' @
     ''      1. Participation (frequency and length of responses)\<newline>'' @
     ''      2. Emotional Depth (level of emotional disclosure)\<newline>'' @
     ''      3. Self-Reflection (insight and introspection)\<newline>'' @
     ''      4. Progress (movement towards therapeutic goals)\<newline>'' @
     ''      5. Openness (willingness to engage and share)\<newline>'' @
     ''\<newline>'' @
     ''      Example response format: 85,70,65,75,80\<newline>'' @
     ''\<newline>'' @
     ''      Conversation:\<newline>'' @
     ''      '' @
     transcript messages @
     ''\<newline>'' @
     ''    ''"

definition sessionPrompt :: "string list \<Rightarrow> string" where
  "sessionPrompt conversation =
     ''Analyze this therapy conversation and provide a structured response with:\<newline>'' @
     ''\<newline>'' @
     ''Emotional State: [User's current emotional state]\<newline>'' @
     ''\<newline>'' @
     ''Key Topics: \<newline>'' @
     ''- [Topic 1]\<newline>'' @
     ''- [Topic 2]\<newline>'' @
     ''...\<newline>'' @
     ''\<newline>'' @
     ''Insights:\<newline>'' @
     ''- [Insight 1]\<newline>'' @
     ''- [Insight 2]\<newline>'' @
     ''...\<newline>'' @
     ''\<newline>'' @
     ''Conversation:\<newline>'' @
     joinStr ''\<newline>'' conversation"

definition summaryPrompt :: "Message list \<Rightarrow> string" where
  "summaryPrompt messages =
     ''\<newline>'' @
     ''      Analyze this therapy conversation and provide a concise summary of the key points discussed.\<newline>'' @
     ''      Focus on the main topics, insights gained, and any breakthroughs or challenges identified.\<newline>'' @
     ''      Format the summary as clear, numbered points.\<newline>'' @
     ''\<newline>'' @
     ''      Conversation:\<newline>'' @
     ''      '' @
     transcript messages @
     ''\<newline>'' @
     ''    ''"

definition goalsPrompt :: "Message list \<Rightarrow> string" where
  "goalsPrompt messages =
     ''\<newline>'' @
     ''      Analyze this therapy conversation and identify the goals discussed.\<newline>'' @
     ''      For each goal, provide:\<newline>'' @
     ''      1. A clear title\<newline>'' @
     ''      2. A brief description\<newline>'' @
     ''      3. An estimated progress percentage (0-100)\<newline>'' @
     ''      4. Current status (not-started, in-progress, or achieved)\<newline>'' @
     ''\<newline>'' @
     ''      Format each goal as:\<newline>'' @
     ''      Title: [title]\<newline>'' @
     ''      Description: [description]\<newline>'' @
     ''      Progress: [X]%\<newline>'' @
     ''      Status: [status]\<newline>'' @
     ''\<newline>'' @
     ''      Conversation:\<newline>'' @
     ''      '' @
     transcript messages @
     ''\<newline>'' @
     ''    ''"

definition improvementsPrompt :: "Message list \<Rightarrow> string" where
  "improvementsPrompt messages =
     ''\<newline>'' @
     ''      Analyze this therapy conversation and identify:\<newline>'' @
     ''      1. Key strengths demonstrated by the user\<newline>'' @
     ''      2. Current challenges or areas for growth\<newline>'' @
     ''      3. Specific recommendations for improvement\<newline>'' @
     ''\<newline>'' @
     ''      Format the response exactly as:\<newline>'' @
     ''      Strengths:\<newline>'' @
     ''      - [strength 1]\<newline>'' @
     ''      - [strength 2]\<newline>'' @
     ''\<newline>'' @
     ''      Challenges:\<newline>'' @
     ''      - [challenge 1]\<newline>'' @
     ''      - [challenge 2]\<newline>'' @
     ''\<newline>'' @
     ''      Recommendations:\<newline>'' @
     ''      - [recommendation 1]\<newline>'' @
     ''      - [recommendation 2]\<newline>'' @
     ''\<newline>'' @
     ''      Conversation:\<newline>'' @
     ''      '' @
     transcript messages @
     ''\<newline>'' @
     ''    ''"

subsection \<open>analyzeEmotions\<close>

definition emotionFromLine :: "string \<Rightarrow> EmotionData option" where
  "emotionFromLine line =
     (let fields = map trim (splitStr ''|'' line)
      in case (elemAt fields 0, elemAt fields 1, elemAt fields 2) of
           (Some timestamp', Some emotion', Some value') \<Rightarrow>
             if timestamp' \<noteq> [] \<and> emotion' \<noteq> [] \<and> value' \<noteq> []
             then Some \<lparr>EmotionData.timestamp = timestamp',
                        emotion_value = (case parseInt10 value' of Some n \<Rightarrow> n | None \<Rightarrow> 0),
                        EmotionData.emotion = emotion'\<rparr>
             else None
         | _ \<Rightarrow> None)"

definition emotionsFromResponse :: "string \<Rightarrow> EmotionData list" where
  "emotionsFromResponse response =
     (let emotionLines = filter (\<lambda>line. includesStr line ''|'') (splitStr ''\<newline>'' response)
      in List.map_filter emotionFromLine emotionLines)"

text \<open>
  One match of the pattern "word characters, a colon, optional white space, digits, a
  percent sign" anchored at the start of \<open>s\<close>: the word, the digits and the length of the
  match.  Each greedy run is followed by a character outside its class, so no shorter run
  can match.
\<close>

definition matchDistributionAt :: "string \<Rightarrow> (string \<times> string \<times> nat) option" where
  "matchDistributionAt s =
     (let word = takeWhile isWordChar s;
          s1 = drop (length word) s;
          spaces = takeWhile isWhiteSpace (drop 1 s1);
          s2 = drop (length spaces) (drop 1 s1);
          ds = takeWhile isDigit s2;
          s3 = drop (length ds) s2
      in if word \<noteq> [] \<and> startsWith s1 '':'' \<and> ds \<noteq> [] \<and> startsWith s3 ''%''
         then Some (word, ds, length word + 1 + length spaces + length ds + 1)
         else None)"

text \<open>
  \<^verbatim>\<open>matchAll\<close> with the global flag: the leftmost match, then the search goes on behind
  it (a match found at \<open>c # cs\<close> with length \<open>len\<close> ends at \<open>drop (len - 1) cs\<close>).
\<close>

fun dominantMatches :: "string \<Rightarrow> (string \<times> string) list" where
  "dominantMatches [] = []"
| "dominantMatches (c # cs) =
     (case matchDistributionAt (c # cs) of
        Some (word, ds, len) \<Rightarrow> (word, ds) # dominantMatches (drop (len - 1) cs)
      | None \<Rightarrow> dominantMatches cs)"

definition dominantEmotionsFromResponse :: "string \<Rightarrow> DominantEmotion list" where
  "dominantEmotionsFromResponse response =
     (case elemAt (splitStr ''Distribution:'' response) 1 of
        Some distributionSection \<Rightarrow>
          if distributionSection \<noteq> []
          then map (\<lambda>(word, ds). \<lparr>DominantEmotion.emotion = word, percentage = int (digitsToNat ds)\<rparr>)
                 (dominantMatches distributionSection)
          else []
      | None \<Rightarrow> [])"

definition analyzeEmotions :: "env \<Rightarrow> Message list \<Rightarrow> EmotionalAnalysis io" where
  "analyzeEmotions e messages =
     tryCatch
       (andThen (generateContent e (emotionPrompt messages)) (\<lambda>response.
          succeed \<lparr>EmotionalAnalysis.emotions = emotionsFromResponse response,
                   EmotionalAnalysis.dominantEmotions = dominantEmotionsFromResponse response\<rparr>))
       (\<lambda>error. succeed \<lparr>EmotionalAnalysis.emotions = [], EmotionalAnalysis.dominantEmotions = []\<rparr>)"

subsection \<open>analyzeEngagement\<close>

text \<open>
  All matches of "one or more digits" with the global flag: the maximal runs of digits,
  left to right; \<open>cur\<close> is the run being read.
\<close>

fun matchDigitRuns :: "string \<Rightarrow> string \<Rightarrow> string list" where
  "matchDigitRuns cur [] = (if cur = [] then [] else [cur])"
| "matchDigitRuns cur (c # cs) =
     (if isDigit c then matchDigitRuns (cur @ [c]) cs
      else (if cur = [] then [] else [cur]) @ matchDigitRuns [] cs)"

definition clamp100 :: "int \<Rightarrow> int" where
  \<comment> \<open>\<^verbatim>\<open>Math.min(100, Math.max(0, n))\<close>\<close>
  "clamp100 n = min 100 (max 0 n)"

text \<open>The loop \<^verbatim>\<open>while (normalizedRatings.length < 5) normalizedRatings.push(0)\<close>.\<close>

function padRatings :: "number list \<Rightarrow> number list" where
  "padRatings normalizedRatings =
     (if length normalizedRatings < 5 then padRatings (normalizedRatings @ [Num 0])
      else normalizedRatings)"
  by pat_completeness auto
termination
  by (relation "measure (\<lambda>xs. 5 - length xs)") auto

declare padRatings.simps [simp del]

definition engagementRatings :: "string \<Rightarrow> number list" where
  "engagementRatings response =
     (let ratings = take 5 (matchDigitRuns [] response);
          normalizedRatings = map (\<lambda>n. Num (clamp100 (int (digitsToNat n)))) ratings
      in padRatings normalizedRatings)"

definition analyzeEngagement :: "env \<Rightarrow> Message list \<Rightarrow> (number list) io" where
  "analyzeEngagement e messages =
     tryCatch
       (andThen (generateContent e (engagementPrompt messages)) (\<lambda>response.
          succeed (engagementRatings response)))
       (\<lambda>error. succeed [Num 0, Num 0, Num 0, Num 0, Num 0])"

subsection \<open>analyzeSession\<close>

text \<open>
  \<^verbatim>\<open>section.split(':')[1]?.trim().split('-').map(t => t.trim()).filter(t => t)\<close>:
  without a colon in the section the whole chain is \<^verbatim>\<open>undefined\<close>.
\<close>

definition listAfterColon :: "string \<Rightarrow> string list option" where
  "listAfterColon section =
     (case elemAt (splitStr '':'' section) 1 of
        None \<Rightarrow> None
      | Some v \<Rightarrow> Some (filter (\<lambda>t. t \<noteq> []) (map trim (splitStr ''-'' (trim v)))))"

definition analysisStep :: "SessionAnalysis \<Rightarrow> string \<Rightarrow> SessionAnalysis" where
  "analysisStep analysis section =
     (if includesStr (toLowerCase section) ''emotional state''
      then analysis\<lparr>emotionalState :=
             (case elemAt (splitStr '':'' section) 1 of Some v \<Rightarrow> trim v | None \<Rightarrow> [])\<rparr>
      else if includesStr (toLowerCase section) ''key topics''
      then analysis\<lparr>keyTopics := listAfterColon section\<rparr>
      else if includesStr (toLowerCase section) ''insights''
      then analysis\<lparr>insights := listAfterColon section\<rparr>
      else analysis)"

definition parseAnalysisResponse :: "string \<Rightarrow> SessionAnalysis" where
  "parseAnalysisResponse text' =
     (let analysis = \<lparr>emotionalState = [], keyTopics = Some [], insights = Some []\<rparr>;
          sections = splitStr ''\<newline>\<newline>'' text'
      in foldl analysisStep analysis sections)"

definition analyzeSession :: "env \<Rightarrow> string list \<Rightarrow> SessionAnalysis io" where
  "analyzeSession e conversation =
     tryCatch
       (andThen (generateContent e (sessionPrompt conversation)) (\<lambda>text'.
          succeed (parseAnalysisResponse text')))
       (\<lambda>error. succeed \<lparr>emotionalState = ''Unable to analyze'',
                           keyTopics = Some [], insights = Some []\<rparr>)"

subsection \<open>analyzeSessionSummary\<close>

definition analyzeSessionSummary :: "env \<Rightarrow> Message list \<Rightarrow> string io" where
  "analyzeSessionSummary e messages =
     tryCatch
       (andThen (generateContent e (summaryPrompt messages)) (\<lambda>summary.
          succeed (trim summary)))
       (\<lambda>error. succeed [])"

subsection \<open>analyzeGoals\<close>

text \<open>
  The first match of a label followed by "one or more characters of the line": the
  captured group, which runs to the end of the line.
\<close>

fun matchLineField :: "string \<Rightarrow> string \<Rightarrow> string option" where
  "matchLineField label [] = None"
| "matchLineField label (c # cs) =
     (let rest = drop (length label) (c # cs);
          captured = takeWhile (\<lambda>d. \<not> isLineTerminator d) rest
      in if startsWith (c # cs) label \<and> captured \<noteq> [] then Some captured
         else matchLineField label cs)"

text \<open>The first match of \<^verbatim>\<open>Progress: \<close>, digits and a percent sign: the digits.\<close>

fun matchProgress :: "string \<Rightarrow> string option" where
  "matchProgress [] = None"
| "matchProgress (c # cs) =
     (let rest = drop (length ''Progress: '') (c # cs);
          ds = takeWhile isDigit rest
      in if startsWith (c # cs) ''Progress: '' \<and> ds \<noteq> [] \<and> startsWith (drop (length ds) rest) ''%''
         then Some ds
         else matchProgress cs)"

text \<open>The first match of \<^verbatim>\<open>Status: \<close> and one of the three status names.\<close>

fun matchStatus :: "string \<Rightarrow> status option" where
  "matchStatus [] = None"
| "matchStatus (c # cs) =
     (let rest = drop (length ''Status: '') (c # cs)
      in if startsWith (c # cs) ''Status: '' \<and> startsWith rest ''not-started'' then Some NotStarted
         else if startsWith (c # cs) ''Status: '' \<and> startsWith rest ''in-progress'' then Some InProgress
         else if startsWith (c # cs) ''Status: '' \<and> startsWith rest ''achieved'' then Some Achieved
         else matchStatus cs)"

text \<open>The body of the loop over \<^verbatim>\<open>goalSections\<close>: the goal pushed, if any.\<close>

definition goalFromSection :: "string \<Rightarrow> ExtractedGoal option" where
  "goalFromSection section =
     (let title' = matchLineField ''Title: '' section;
          description' = matchLineField ''Description: '' section;
          progressMatch = matchProgress section;
          statusMatch = matchStatus section
      in case (title', description') of
           (Some t, Some d) \<Rightarrow>
             Some \<lparr>title = trim t,
                   description = trim d,
                   ExtractedGoal.progress =
                     (case progressMatch of
                        Some ds \<Rightarrow> clamp100 (int (digitsToNat ds))
                      | None \<Rightarrow> 0),
                   ExtractedGoal.status =
                     (case statusMatch of Some s \<Rightarrow> s | None \<Rightarrow> NotStarted)\<rparr>
         | _ \<Rightarrow> None)"

definition goalsFromResponse :: "string \<Rightarrow> ExtractedGoal list" where
  "goalsFromResponse response =
     (let goalSections = splitStr ''\<newline>\<newline>'' response
      in List.map_filter goalFromSection goalSections)"

definition analyzeGoals :: "env \<Rightarrow> Message list \<Rightarrow> (ExtractedGoal list) io" where
  "analyzeGoals e messages =
     tryCatch
       (andThen (generateContent e (goalsPrompt messages)) (\<lambda>response.
          succeed (goalsFromResponse response)))
       (\<lambda>error. succeed [])"

subsection \<open>analyzeImprovements\<close>

definition bulletLines :: "string \<Rightarrow> string list" where
  "bulletLines s =
     map (\<lambda>line. trim (removeFirst ''-'' line))
       (filter (\<lambda>line. startsWith (trim line) ''-'') (splitStr ''\<newline>'' s))"

definition improvementsStep :: "Improvements \<Rightarrow> string \<Rightarrow> Improvements" where
  "improvementsStep improvements' section =
     (if startsWith section ''Strengths:''
      then improvements'\<lparr>strengths := bulletLines (removeFirst ''Strengths:'' section)\<rparr>
      else if startsWith section ''Challenges:''
      then improvements'\<lparr>challenges := bulletLines (removeFirst ''Challenges:'' section)\<rparr>
      else if startsWith section ''Recommendations:''
      then improvements'\<lparr>recommendations := bulletLines (removeFirst ''Recommendations:'' section)\<rparr>
      else improvements')"

definition improvementsFromResponse :: "string \<Rightarrow> Improvements" where
  "improvementsFromResponse response =
     (let improvements' = \<lparr>strengths = [], challenges = [], recommendations = []\<rparr>;
          sections = splitStr ''\<newline>\<newline>'' response
      in foldl improvementsStep improvements' sections)"

definition analyzeImprovements :: "env \<Rightarrow> Message list \<Rightarrow> Improvements io" where
  "analyzeImprovements e messages =
     tryCatch
       (andThen (generateContent e (improvementsPrompt messages)) (\<lambda>response.
          succeed (improvementsFromResponse response)))
       (\<lambda>error. succeed \<lparr>strengths = [], challenges = [], recommendations = []\<rparr>)"

subsection \<open>determineGoalStatus\<close>

definition determineGoalStatus :: "int \<Rightarrow> status" where
  "determineGoalStatus progress' =
     (if progress' \<ge> 100 then Achieved
      else if progress' > 0 then InProgress
      else NotStarted)"

text \<open>
  The specification's table, on a progress value already brought into the range 0..100:
  0 is not-started, 100 is achieved, anything else is in-progress.
\<close>

definition specStatus :: "int \<Rightarrow> status" where
  "specStatus q = (if q = 0 then NotStarted else if q = 100 then Achieved else InProgress)"

subsection \<open>trackProgressWithEmotions\<close>

text \<open>
  The argument \<^verbatim>\<open>messages\<close> as the guard \<^verbatim>\<open>!Array.isArray(messages)\<close> sees it.
\<close>

datatype messages_arg = NotAnArray | MessageArray "Message list"

text \<open>
  \<^verbatim>\<open>Promise.all\<close> of two operations: both are started, in this order, whatever the
  other does, and the result is the pair of their results or a failure.  Here one runs
  after the other; in the source each sends its prompt when it is started, and they overlap
  only while they wait for the answers.
\<close>

definition both :: "'a io \<Rightarrow> 'b io \<Rightarrow> ('a \<times> 'b) io" where
  "both m1 m2 w =
     (case m1 w of (r1, w1) \<Rightarrow>
        (case m2 w1 of (r2, w2) \<Rightarrow>
           (case r1 of
              Inl e \<Rightarrow> (Inl e, w2)
            | Inr a \<Rightarrow> (case r2 of Inl e \<Rightarrow> (Inl e, w2) | Inr b \<Rightarrow> (Inr (a, b), w2)))))"

definition trackProgressWithEmotions :: "env \<Rightarrow> messages_arg \<Rightarrow> ProgressData io" where
  "trackProgressWithEmotions e messages =
     tryCatch
       (case messages of
          NotAnArray \<Rightarrow> throw (Error ''No messages provided for progress tracking'')
        | MessageArray ms \<Rightarrow>
            if length ms = 0 then throw (Error ''No messages provided for progress tracking'')
            else
              andThen
                (both (retryOperation (analyzeEmotions e ms) MAX_RETRIES)
                (both (retryOperation (analyzeEngagement e ms) MAX_RETRIES)
                (both (retryOperation (analyzeSessionSummary e ms) MAX_RETRIES)
                (both (retryOperation (analyzeGoals e ms) MAX_RETRIES)
                      (retryOperation (analyzeImprovements e ms) MAX_RETRIES)))))
                (\<lambda>(emotionalAnalysis, engagementLevels, sessionSummary', goals', improvements').
                   let progressData =
                         \<lparr>sessionSummary = sessionSummary',
                          goals = map (\<lambda>g. \<lparr>goal = title g,
                                              Goal.progress = ExtractedGoal.progress g,
                                              Goal.status = determineGoalStatus (ExtractedGoal.progress g)\<rparr>)
                                    goals',
                          improvements = improvements',
                          ProgressData.timestamp = now e,
                          emotionalJourney =
                            \<lparr>EmotionalJourney.emotions = EmotionalAnalysis.emotions emotionalAnalysis,
                             EmotionalJourney.dominantEmotions =
                               EmotionalAnalysis.dominantEmotions emotionalAnalysis,
                             engagementLevel = engagementLevels\<rparr>\<rparr>
                   in andThen (lift (validateProgressData (Conforming progressData))) (\<lambda>valid.
                        andThen (if valid then saveProgress e progressData else succeed ())
                          (\<lambda>_. succeed progressData))))
       (\<lambda>error. throw error)"

subsection \<open>mergeGoals\<close>

text \<open>\<^verbatim>\<open>Array.prototype.findIndex\<close>; \<^term>\<open>None\<close> stands for the result -1.\<close>

fun findIndex :: "('a \<Rightarrow> bool) \<Rightarrow> 'a list \<Rightarrow> nat option" where
  "findIndex P [] = None"
| "findIndex P (x # xs) =
     (if P x then Some 0 else map_option Suc (findIndex P xs))"

text \<open>
  One round of the \<^verbatim>\<open>newGoals.forEach\<close> body: either the first entry of the merged list
  with the same text gets the larger progress and the status recomputed from it, or the new
  goal is pushed at the end.
\<close>

definition mergeStep :: "Goal list \<Rightarrow> Goal \<Rightarrow> Goal list" where
  "mergeStep mergedGoals newGoal =
     (case findIndex (\<lambda>g. goal g = goal newGoal) mergedGoals of
        Some existingGoalIndex \<Rightarrow>
          (let p = max (Goal.progress (mergedGoals ! existingGoalIndex)) (Goal.progress newGoal)
           in mergedGoals[existingGoalIndex :=
                (mergedGoals ! existingGoalIndex)
                  \<lparr>Goal.progress := p, Goal.status := determineGoalStatus p\<rparr>])
      | None \<Rightarrow> mergedGoals @ [newGoal])"

definition mergeGoals :: "Goal list \<Rightarrow> Goal list \<Rightarrow> Goal list" where
  "mergeGoals previousGoals newGoals = foldl mergeStep previousGoals newGoals"

text \<open>
  What the merge is to leave at position \<open>i\<close> of the prior list, where \<open>g\<close> stood: if a
  new goal has the same text and \<open>g\<close> is the first prior goal with it, the larger of the
  two progress values with the status derived from it; otherwise \<open>g\<close> as it was.
\<close>

definition mergedPrior :: "Goal list \<Rightarrow> Goal list \<Rightarrow> nat \<times> Goal \<Rightarrow> Goal" where
  "mergedPrior previousGoals newGoals = (\<lambda>(i, g).
     case find (\<lambda>n. goal n = goal g) newGoals of
       Some n \<Rightarrow>
         if findIndex (\<lambda>h. goal h = goal g) previousGoals = Some i
         then g\<lparr>Goal.progress := max (Goal.progress g) (Goal.progress n),
                Goal.status := determineGoalStatus (max (Goal.progress g) (Goal.progress n))\<rparr>
         else g
     | None \<Rightarrow> g)"

subsection \<open>calculateEngagementTrend\<close>

definition segmentSize :: "Message list \<Rightarrow> nat" where
  \<comment> \<open>\<^verbatim>\<open>Math.ceil(messages.length / 3)\<close>\<close>
  "segmentSize messages = (length messages + 2) div 3"

text \<open>The loop of \<^verbatim>\<open>splitMessagesIntoSegments\<close> from index \<open>i\<close> on.\<close>

function segmentsFrom :: "Message list \<Rightarrow> nat \<Rightarrow> Message list list" where
  "segmentsFrom messages i =
     (if i < length messages
      then slice i (i + segmentSize messages) messages
           # segmentsFrom messages (i + segmentSize messages)
      else [])"
  by pat_completeness auto
termination
  by (relation "measure (\<lambda>(messages, i). length messages - i)") (auto simp: segmentSize_def)

declare segmentsFrom.simps [simp del]

definition splitMessagesIntoSegments :: "Message list \<Rightarrow> Message list list" where
  "splitMessagesIntoSegments messages = segmentsFrom messages 0"

definition orZero :: "number option \<Rightarrow> int" where
  \<comment> \<open>\<^verbatim>\<open>curr[idx] || 0\<close>\<close>
  "orZero x = (case x of Some (Num n) \<Rightarrow> n | _ \<Rightarrow> 0)"

definition roundDiv :: "int \<Rightarrow> nat \<Rightarrow> int" where
  \<comment> \<open>\<^verbatim>\<open>Math.round(summed / n)\<close> for \<open>n > 0\<close>: the nearest integer, a half going up\<close>
  "roundDiv summed n = (2 * summed + int n) div (2 * int n)"

text \<open>
  With no results at all the sums are all 0 and \<^verbatim>\<open>Math.round(0 / 0)\<close> is
  \<^verbatim>\<open>NaN\<close>.
\<close>

definition averageEngagementLevels :: "number list list \<Rightarrow> number list" where
  "averageEngagementLevels engagementResults =
     (let summedLevels =
            foldl (\<lambda>acc curr. map (\<lambda>(val, idx). val + orZero (elemAt curr idx))
                                 (zip acc [0..<length acc]))
              [0, 0, 0, 0, 0] engagementResults
      in map (\<lambda>summed. if length engagementResults = 0 then NaN
                        else Num (roundDiv summed (length engagementResults)))
           summedLevels)"

text \<open>\<^verbatim>\<open>Promise.all\<close> of a list of operations, all started in order.\<close>

fun promiseAll :: "('a io) list \<Rightarrow> ('a list) io" where
  "promiseAll [] w = (Inr [], w)"
| "promiseAll (m # ms) w =
     (case both m (promiseAll ms) w of
        (Inl e, w') \<Rightarrow> (Inl e, w')
      | (Inr (x, xs), w') \<Rightarrow> (Inr (x # xs), w'))"

definition calculateEngagementTrend :: "env \<Rightarrow> Message list \<Rightarrow> (number list) io" where
  "calculateEngagementTrend e messages =
     (let segments = splitMessagesIntoSegments messages;
          engagementPromises = map (\<lambda>segment. analyzeEngagement e segment) segments
      in tryCatch
           (andThen (promiseAll engagementPromises) (\<lambda>engagementResults.
              succeed (averageEngagementLevels engagementResults)))
           (\<lambda>error. succeed [Num 0, Num 0, Num 0, Num 0, Num 0]))"

subsection \<open>generateComprehensiveSummary\<close>

text \<open>
  Mapping over a list field that is \<^verbatim>\<open>undefined\<close> throws a \<^verbatim>\<open>TypeError\<close>.
\<close>

definition generateComprehensiveSummary :: "string \<Rightarrow> SessionAnalysis \<Rightarrow> error + string" where
  "generateComprehensiveSummary currentSummary analysis =
     (case keyTopics analysis of
        None \<Rightarrow> Inl (Error ''TypeError'')
      | Some topics \<Rightarrow>
          (case insights analysis of
             None \<Rightarrow> Inl (Error ''TypeError'')
           | Some insights' \<Rightarrow>
               (let summaryParts =
                      [currentSummary,
                       ''\<newline>\<newline>Emotional State: '' @ emotionalState analysis,
                       ''\<newline>Key Topics:'']
                      @ map (\<lambda>topic. ''- '' @ topic) topics
                      @ [''\<newline>Key Insights:'']
                      @ map (\<lambda>insight. ''- '' @ insight) insights'
                in Inr (trim (joinStr ''\<newline>'' summaryParts)))))"

subsection \<open>endSession\<close>

definition endSession :: "env \<Rightarrow> messages_arg \<Rightarrow> ProgressData io" where
  "endSession e messages =
     tryCatch
       (case messages of
          NotAnArray \<Rightarrow> throw (Error ''No messages provided for session analysis'')
        | MessageArray ms \<Rightarrow>
            if length ms = 0 then throw (Error ''No messages provided for session analysis'')
            else
              andThen (getLatestProgress e) (\<lambda>latestProgress.
              andThen (trackProgressWithEmotions e messages) (\<lambda>finalProgress.
                let finalProgress1 =
                      (case latestProgress of
                         Some latest \<Rightarrow>
                           finalProgress\<lparr>goals := mergeGoals (goals latest) (goals finalProgress)\<rparr>
                       | None \<Rightarrow> finalProgress);
                    finalProgress2 =
                      (case latestProgress of
                         Some latest \<Rightarrow>
                           finalProgress1\<lparr>emotionalJourney := (emotionalJourney finalProgress1)
                             \<lparr>EmotionalJourney.emotions :=
                                EmotionalJourney.emotions (emotionalJourney latest)
                                @ EmotionalJourney.emotions (emotionalJourney finalProgress1)\<rparr>\<rparr>
                       | None \<Rightarrow> finalProgress1)
                in
              andThen (calculateEngagementTrend e ms) (\<lambda>engagementTrend.
                let finalProgress3 =
                      finalProgress2\<lparr>emotionalJourney := (emotionalJourney finalProgress2)
                        \<lparr>engagementLevel := engagementTrend\<rparr>\<rparr>
                in
              andThen (analyzeSession e (map msg_text ms)) (\<lambda>sessionAnalysis.
              andThen (lift (generateComprehensiveSummary (sessionSummary finalProgress3)
                               sessionAnalysis)) (\<lambda>summary.
                let finalProgress4 = finalProgress3\<lparr>sessionSummary := summary\<rparr>
                in
              andThen (saveProgress e finalProgress4) (\<lambda>_. succeed finalProgress4)))))))
       (\<lambda>error. throw error)"

section \<open>Notions for stating the properties\<close>

text \<open>
  The state in which the invocation number \<open>k + 1\<close> of an operation under
  \<^verbatim>\<open>retryOperation\<close> starts, when the \<open>k\<close> invocations before it have failed: after
  each of them the delay has been waited.
\<close>

fun attemptState :: "'a io \<Rightarrow> nat \<Rightarrow> world \<Rightarrow> world" where
  "attemptState operation 0 w = w"
| "attemptState operation (Suc k) w =
     setTimeout RETRY_DELAY (snd (operation (attemptState operation k w)))"

text \<open>
  The history that the store holds: what \<^verbatim>\<open>getProgressHistory\<close> makes of the stored
  item when \<^verbatim>\<open>getItem\<close> succeeds.
\<close>

definition validHistory :: "payload option \<Rightarrow> ProgressData list" where
  "validHistory stored =
     (case stored of
        Some (JsonArray items) \<Rightarrow> (case filterValid items of Inr xs \<Rightarrow> xs | Inl err \<Rightarrow> [])
      | _ \<Rightarrow> [])"

text \<open>
  The results of the engagement analysis of the segments, one after the other, when the
  first of their model calls is call number \<open>k\<close>.
\<close>

fun engagementOutcomes :: "env \<Rightarrow> nat \<Rightarrow> Message list list \<Rightarrow> number list list" where
  "engagementOutcomes e k [] = []"
| "engagementOutcomes e k (segment # segments) =
     (case generateContent_result e k (engagementPrompt segment) of
        Inl err \<Rightarrow> [Num 0, Num 0, Num 0, Num 0, Num 0]
      | Inr response \<Rightarrow> engagementRatings response)
     # engagementOutcomes e (Suc k) segments"

text \<open>
  Example data: a record with nothing but a summary, a fresh state, an environment in
  which the model always answers with the same text and the store never fails, and a
  message of the user.
\<close>

definition blankRecord :: "string \<Rightarrow> ProgressData" where
  "blankRecord s =
     \<lparr>sessionSummary = s, goals = [],
      improvements = \<lparr>strengths = [], challenges = [], recommendations = []\<rparr>,
      ProgressData.timestamp = [],
      emotionalJourney = \<lparr>EmotionalJourney.emotions = [],
                          EmotionalJourney.dominantEmotions = [], engagementLevel = []\<rparr>\<rparr>"

definition freshWorld :: world where
  "freshWorld = \<lparr>prompts = [], storage = None, getItems = 0, setItems = 0, delays = []\<rparr>"

definition steadyEnv :: "string \<Rightarrow> env" where
  "steadyEnv response =
     \<lparr>generateContent_result = (\<lambda>k p. Inr response), getItem_result = (\<lambda>k. None),
      setItem_result = (\<lambda>k. None), now = ''2024-01-01T00:00:00.000Z''\<rparr>"

definition userSays :: "string \<Rightarrow> Message" where
  "userSays s = \<lparr>msg_text = s, Message.timestamp = ''10:00'', isUser = True\<rparr>"

section \<open>Properties\<close>

subsection \<open>determineGoalStatus\<close>

text \<open>
  C1. The status derived from a progress value is a function of the progress alone: with
  the progress clamped to 0..100, the status is not-started iff the clamped value is 0,
  achieved iff it is 100, and in-progress otherwise.  So every progress of 100 or more is
  achieved (150 is clamped to 100), every progress of 0 or less is not-started, and 0, 45
  and 100 give not-started, in-progress and achieved.
\<close>

theorem determineGoalStatus_spec:
  "determineGoalStatus p = specStatus (clamp100 p)
   \<and> (determineGoalStatus p = NotStarted \<longleftrightarrow> clamp100 p = 0)
   \<and> (determineGoalStatus p = Achieved \<longleftrightarrow> clamp100 p = 100)
   \<and> (determineGoalStatus p = InProgress \<longleftrightarrow> clamp100 p \<noteq> 0 \<and> clamp100 p \<noteq> 100)
   \<and> (clamp100 p = 0 \<longleftrightarrow> p \<le> 0) \<and> (clamp100 p = 100 \<longleftrightarrow> 100 \<le> p)
   \<and> clamp100 150 = 100 \<and> determineGoalStatus 150 = Achieved
   \<and> determineGoalStatus 0 = NotStarted \<and> determineGoalStatus 45 = InProgress
   \<and> determineGoalStatus 100 = Achieved"
  by (simp add: determineGoalStatus_def specStatus_def clamp100_def min_def max_def)

subsection \<open>mergeGoals\<close>

lemma findIndex_Some:
  "findIndex P xs = Some i \<Longrightarrow> i < length xs \<and> P (xs ! i)"
  by (induction xs arbitrary: i) (auto split: if_splits)

lemma findIndex_None: "(findIndex P xs = None) = (\<forall>x\<in>set xs. \<not> P x)"
  by (induction xs) auto

lemma findIndex_append:
  "findIndex P (xs @ ys) =
     (case findIndex P xs of Some i \<Rightarrow> Some i
      | None \<Rightarrow> map_option (\<lambda>j. length xs + j) (findIndex P ys))"
  by (induction xs)
    (auto split: option.splits simp: option.map_comp comp_def option.map_ident map_option_case)

lemma findIndex_cong_map:
  "map P xs = map Q ys \<Longrightarrow> findIndex P xs = findIndex Q ys"
  by (induction xs arbitrary: ys) auto

lemma find_snoc:
  "find P (xs @ [x]) =
     (case find P xs of Some y \<Rightarrow> Some y | None \<Rightarrow> if P x then Some x else None)"
  by (induction xs) auto

lemma goal_mergedPrior [simp]: "goal (mergedPrior prev new (i, g)) = goal g"
  by (simp add: mergedPrior_def split: option.splits)

lemma mergeGoals_snoc: "mergeGoals prev (ns @ [n]) = mergeStep (mergeGoals prev ns) n"
  by (simp add: mergeGoals_def)

lemma mergeGoals_distinct:
  "distinct (map goal new) \<Longrightarrow>
   mergeGoals prev new =
     map (mergedPrior prev new) (enumerate 0 prev) @ filter (\<lambda>n. goal n \<notin> goal ` set prev) new"
proof (induction new rule: rev_induct)
  case Nil
  have "map (mergedPrior prev []) (enumerate 0 prev) = prev"
    by (rule nth_equalityI) (simp_all add: nth_enumerate_eq mergedPrior_def)
  then show ?case by (simp add: mergeGoals_def)
next
  case (snoc n ns)
  let ?A = "map (mergedPrior prev ns) (enumerate 0 prev)"
  let ?B = "filter (\<lambda>n. goal n \<notin> goal ` set prev) ns"
  let ?P = "\<lambda>g. goal g = goal n"
  let ?upd = "\<lambda>g. g\<lparr>Goal.progress := max (Goal.progress g) (Goal.progress n),
                 Goal.status := determineGoalStatus (max (Goal.progress g) (Goal.progress n))\<rparr>"
  from snoc.prems have dist: "distinct (map goal ns)" and fresh0: "goal n \<notin> goal ` set ns"
    by auto
  have fresh: "\<And>x. x \<in> set ns \<Longrightarrow> goal x \<noteq> goal n"
    using fresh0 by (metis imageI)
  have IH: "mergeGoals prev ns = ?A @ ?B" using snoc.IH dist by simp
  have noB: "findIndex ?P ?B = None"
    using fresh by (simp add: findIndex_None)
  have fA: "findIndex ?P ?A = findIndex ?P prev"
    by (rule findIndex_cong_map, rule nth_equalityI) (simp_all add: nth_enumerate_eq)
  have fAB: "findIndex ?P (?A @ ?B) = findIndex ?P prev"
    by (simp add: findIndex_append noB fA split: option.splits)
  have nofind: "\<And>g. goal g = goal n \<Longrightarrow> find (\<lambda>m. goal m = goal g) ns = None"
    using fresh by (simp add: find_None_iff)
  show ?case
  proof (cases "findIndex ?P prev")
    case None
    then have notin: "goal n \<notin> goal ` set prev"
      by (auto simp: findIndex_None)
    have "map (mergedPrior prev (ns @ [n])) (enumerate 0 prev) = ?A"
    proof (rule nth_equalityI)
      fix j assume "j < length (map (mergedPrior prev (ns @ [n])) (enumerate 0 prev))"
      then have j: "j < length prev" by simp
      then have "goal (prev ! j) \<noteq> goal n" using notin by (metis image_eqI nth_mem)
      then show "map (mergedPrior prev (ns @ [n])) (enumerate 0 prev) ! j = ?A ! j"
        using j by (auto simp: nth_enumerate_eq mergedPrior_def find_snoc split: option.splits)
    qed simp
    then show ?thesis
      using None notin by (simp add: mergeGoals_snoc IH mergeStep_def fAB)
  next
    case (Some i)
    then have i: "i < length prev" and gi: "goal (prev ! i) = goal n"
      using findIndex_Some[of ?P prev i] by auto
    have inprev: "goal n \<in> goal ` set prev"
      using i gi by (metis image_eqI nth_mem)
    have Ai: "?A ! i = prev ! i"
      using i nofind[OF gi] by (simp add: nth_enumerate_eq mergedPrior_def)
    have "map (mergedPrior prev (ns @ [n])) (enumerate 0 prev) = ?A[i := ?upd (prev ! i)]"
    proof (rule nth_equalityI)
      fix j assume "j < length (map (mergedPrior prev (ns @ [n])) (enumerate 0 prev))"
      then have j: "j < length prev" by simp
      show "map (mergedPrior prev (ns @ [n])) (enumerate 0 prev) ! j
            = ?A[i := ?upd (prev ! i)] ! j"
      proof (cases "j = i")
        case True
        then show ?thesis
          using i gi Some nofind[OF gi]
          by (simp add: nth_enumerate_eq mergedPrior_def find_snoc)
      next
        case False
        show ?thesis
        proof (cases "goal (prev ! j) = goal n")
          case True
          then show ?thesis
            using j i False Some nofind[OF True]
            by (simp add: nth_enumerate_eq mergedPrior_def find_snoc)
        next
          case ne: False
          then show ?thesis
            using j i False
            by (auto simp: nth_enumerate_eq mergedPrior_def find_snoc split: option.splits)
        qed
      qed
    qed simp
    then show ?thesis
      using Some i inprev Ai
      by (simp add: mergeGoals_snoc IH mergeStep_def fAB Let_def nth_append list_update_append)
  qed
qed

text \<open>
  C3, as the code has it.  When no two goals of the new list have the same text, the merge
  is the prior list, position by position, followed by the new goals whose text no prior
  goal has, in their order and unchanged.  At a prior position the goal keeps its text; if
  a new goal has exactly this text and the position is the first with it, the progress is
  the larger of the two and the status is derived from that progress; otherwise the prior
  goal stays as it was.
\<close>

theorem mergeGoals_merges:
  assumes "distinct (map goal newGoals)"
  shows "mergeGoals previousGoals newGoals =
           map (mergedPrior previousGoals newGoals) (enumerate 0 previousGoals)
           @ filter (\<lambda>n. goal n \<notin> goal ` set previousGoals) newGoals"
  using assms by (rule mergeGoals_distinct)

theorem mergeGoals_merges_witness:
  "distinct (map goal [\<lparr>goal = ''Sleep better'', progress = 70, status = InProgress\<rparr>,
                       \<lparr>goal = ''Exercise'', progress = 20, status = InProgress\<rparr>])
   \<and> mergeGoals [\<lparr>goal = ''Sleep better'', progress = 40, status = InProgress\<rparr>]
        [\<lparr>goal = ''Sleep better'', progress = 70, status = InProgress\<rparr>,
         \<lparr>goal = ''Exercise'', progress = 20, status = InProgress\<rparr>]
     = [\<lparr>goal = ''Sleep better'', progress = 70, status = InProgress\<rparr>,
        \<lparr>goal = ''Exercise'', progress = 20, status = InProgress\<rparr>]"
proof -
  have d: "distinct (map goal [\<lparr>goal = ''Sleep better'', progress = 70, status = InProgress\<rparr>,
                               \<lparr>goal = ''Exercise'', progress = 20, status = InProgress\<rparr>])"
    by simp
  show ?thesis
    using d mergeGoals_merges [OF d, of "[\<lparr>goal = ''Sleep better'', progress = 40, status = InProgress\<rparr>]"]
    by (simp add: mergedPrior_def enumerate_eq_zip determineGoalStatus_def)
qed

text \<open>
  The claim as stated fails when the new list repeats a text: the second new goal called
  Exercise does not occur in the (empty) prior list, yet it is not appended; it is merged
  into the first one.
\<close>

theorem mergeGoals_appends_counterexample:
  "mergeGoals []
     [\<lparr>goal = ''Exercise'', progress = 20, status = InProgress\<rparr>,
      \<lparr>goal = ''Exercise'', progress = 30, status = InProgress\<rparr>]
   = [\<lparr>goal = ''Exercise'', progress = 30, status = InProgress\<rparr>]"
  by (simp add: mergeGoals_def mergeStep_def determineGoalStatus_def)

subsection \<open>The analysis operations\<close>

text \<open>
  An analysis operation is one model call inside \<^verbatim>\<open>try\<close>: it returns what the parser
  makes of the response, or its default when the call fails, and records the prompt.
\<close>

lemma tryCatch_generate:
  "tryCatch (andThen (generateContent e prompt) (\<lambda>response. succeed (f response)))
     (\<lambda>error. succeed d) w =
   (Inr (case generateContent_result e (length (prompts w)) prompt of
           Inl err \<Rightarrow> d | Inr response \<Rightarrow> f response),
    w\<lparr>prompts := prompts w @ [prompt]\<rparr>)"
  by (simp add: tryCatch_def andThen_def generateContent_def succeed_def split: sum.splits)

lemma clamp100_range: "0 \<le> clamp100 n \<and> clamp100 n \<le> 100"
  by (simp add: clamp100_def)

subsection \<open>analyzeEngagement\<close>

lemma padRatings_eq: "padRatings xs = xs @ replicate (5 - length xs) (Num 0)"
proof (induction xs rule: padRatings.induct)
  case (1 xs)
  show ?case
  proof (cases "length xs < 5")
    case True
    then have "5 - length xs = Suc (5 - length (xs @ [Num 0]))" by simp
    then show ?thesis
      using 1 True by (subst padRatings.simps) (simp add: replicate_app_Cons_same)
  next
    case False
    then show ?thesis by (subst padRatings.simps) simp
  qed
qed

text \<open>
  The integer tokens of a text are its maximal runs of digits: a run of digits followed by
  another character is one token, and characters that are no digits separate tokens.
\<close>

lemma matchDigitRuns_all:
  "list_all isDigit cur \<Longrightarrow>
   list_all (\<lambda>t. t \<noteq> [] \<and> list_all isDigit t) (matchDigitRuns cur s)"
  by (induction s arbitrary: cur) simp_all

lemma matchDigitRuns_token:
  "list_all isDigit t \<Longrightarrow> cur @ t \<noteq> [] \<Longrightarrow> \<not> isDigit c \<Longrightarrow>
   matchDigitRuns cur (t @ c # s) = (cur @ t) # matchDigitRuns [] s"
  by (induction t arbitrary: cur) auto

lemma matchDigitRuns_last:
  "list_all isDigit t \<Longrightarrow> cur @ t \<noteq> [] \<Longrightarrow> matchDigitRuns cur t = [cur @ t]"
  by (induction t arbitrary: cur) auto

lemma matchDigitRuns_skip:
  "\<not> isDigit c \<Longrightarrow> matchDigitRuns [] (c # s) = matchDigitRuns [] s"
  by simp

text \<open>
  C6. For every outcome of the model call, the failure included, the engagement analysis
  returns exactly five integers, each in 0..100: the first five integer tokens of the
  response text, each clamped to 0..100, and zeros behind them when the text has fewer than
  five tokens; on failure five zeros.
\<close>

theorem analyzeEngagement_five:
  "\<exists>ns. analyzeEngagement e messages w =
          (Inr (map Num ns), w\<lparr>prompts := prompts w @ [engagementPrompt messages]\<rparr>)
     \<and> length ns = 5 \<and> (\<forall>n\<in>set ns. 0 \<le> n \<and> n \<le> 100)
     \<and> ns = (case generateContent_result e (length (prompts w)) (engagementPrompt messages) of
               Inl err \<Rightarrow> [0, 0, 0, 0, 0]
             | Inr response \<Rightarrow>
                 take 5 (map (\<lambda>n. clamp100 (int (digitsToNat n))) (matchDigitRuns [] response))
                 @ replicate (5 - length (matchDigitRuns [] response)) 0)"
proof (cases "generateContent_result e (length (prompts w)) (engagementPrompt messages)")
  case (Inl err)
  then show ?thesis
    by (intro exI[of _ "[0, 0, 0, 0, 0]"]) (simp add: analyzeEngagement_def tryCatch_generate)
next
  case (Inr response)
  let ?ts = "matchDigitRuns [] response"
  let ?ns = "take 5 (map (\<lambda>n. clamp100 (int (digitsToNat n))) ?ts) @ replicate (5 - length ?ts) 0"
  have "engagementRatings response = map Num ?ns"
    by (simp add: engagementRatings_def padRatings_eq take_map min_def)
  moreover have "length ?ns = 5" by auto
  moreover have "\<forall>n\<in>set ?ns. 0 \<le> n \<and> n \<le> 100"
    using clamp100_range by (auto dest!: in_set_takeD)
  ultimately show ?thesis
    using Inr by (intro exI[of _ ?ns]) (simp add: analyzeEngagement_def tryCatch_generate)
qed

theorem analyzeEngagement_five_witness:
  "fst (analyzeEngagement
         \<lparr>generateContent_result = (\<lambda>k p. Inr ''Scores: 85, 170 and -3''),
          getItem_result = (\<lambda>k. None), setItem_result = (\<lambda>k. None), now = []\<rparr>
         []
         \<lparr>prompts = [], storage = None, getItems = 0, setItems = 0, delays = []\<rparr>)
   = Inr [Num 85, Num 100, Num 3, Num 0, Num 0]"
proof -
  define e where "e = \<lparr>generateContent_result = (\<lambda>k p. Inr ''Scores: 85, 170 and -3''),
          getItem_result = (\<lambda>k. None), setItem_result = (\<lambda>k. None), now = []\<rparr>"
  define w where "w = \<lparr>prompts = [], storage = None, getItems = 0, setItems = 0, delays = []\<rparr>"
  have ts: "matchDigitRuns [] ''Scores: 85, 170 and -3'' = [''85'', ''170'', ''3'']"
    by code_simp
  have g: "generateContent_result e (length (prompts w)) (engagementPrompt [])
           = Inr ''Scores: 85, 170 and -3''"
    by (simp add: e_def)
  from analyzeEngagement_five [of e "[]" w]
  obtain ns where r: "analyzeEngagement e [] w =
          (Inr (map Num ns), w\<lparr>prompts := prompts w @ [engagementPrompt []]\<rparr>)"
    and ns: "ns = (case generateContent_result e (length (prompts w)) (engagementPrompt []) of
               Inl err \<Rightarrow> [0, 0, 0, 0, 0]
             | Inr response \<Rightarrow>
                 take 5 (map (\<lambda>n. clamp100 (int (digitsToNat n))) (matchDigitRuns [] response))
                 @ replicate (5 - length (matchDigitRuns [] response)) 0)"
    by blast
  have "ns = [85, 100, 3, 0, 0]"
    unfolding ns g sum.case ts
    by (simp add: clamp100_def digitsToNat_def digitValue_def numeral_2_eq_2)
  with r have "fst (analyzeEngagement e [] w) = Inr [Num 85, Num 100, Num 3, Num 0, Num 0]"
    by simp
  then show ?thesis unfolding e_def w_def .
qed

subsection \<open>analyzeGoals\<close>

lemma startsWith_append:
  "startsWith s (p @ q) \<longleftrightarrow> startsWith s p \<and> startsWith (drop (length p) s) q"
proof
  assume a: "startsWith s (p @ q)"
  then have eq: "take (length p) s @ take (length q) (drop (length p) s) = p @ q"
    by (simp add: startsWith_def take_add)
  from a have "length (take (length p + length q) s) = length p + length q"
    by (simp add: startsWith_def)
  then have "length p + length q \<le> length s" by simp
  then have "length (take (length p) s) = length p" by simp
  with eq show "startsWith s p \<and> startsWith (drop (length p) s) q"
    by (simp add: startsWith_def)
next
  assume "startsWith s p \<and> startsWith (drop (length p) s) q"
  then show "startsWith s (p @ q)"
    by (simp add: startsWith_def take_add)
qed

lemma includesStr_prefix: "includesStr s (p @ q) \<Longrightarrow> includesStr s p"
  by (induction s) (auto simp: startsWith_append)

lemma matchLineField_includes:
  "matchLineField label s = Some x \<Longrightarrow> includesStr s label"
  by (induction s) (auto simp: Let_def split: if_splits)

lemma matchStatus_None:
  "matchStatus s = None \<longleftrightarrow>
     \<not> includesStr s ''Status: not-started'' \<and> \<not> includesStr s ''Status: in-progress''
     \<and> \<not> includesStr s ''Status: achieved''"
proof (induction s)
  case Nil
  show ?case by simp
next
  case (Cons c cs)
  have a: "\<And>q. startsWith (c # cs) (''Status: '' @ q)
        \<longleftrightarrow> startsWith (c # cs) ''Status: '' \<and> startsWith (drop (length ''Status: '') (c # cs)) q"
    by (rule startsWith_append)
  show ?case
    using Cons a[of "''not-started''"] a[of "''in-progress''"] a[of "''achieved''"]
    by (simp add: Let_def)
qed

lemma goalFromSection_Some:
  "goalFromSection section = Some g \<longleftrightarrow>
     (\<exists>t d. matchLineField ''Title: '' section = Some t
          \<and> matchLineField ''Description: '' section = Some d
          \<and> g = \<lparr>title = trim t, description = trim d,
                  ExtractedGoal.progress =
                    (case matchProgress section of
                       Some ds \<Rightarrow> clamp100 (int (digitsToNat ds)) | None \<Rightarrow> 0),
                  ExtractedGoal.status =
                    (case matchStatus section of Some s \<Rightarrow> s | None \<Rightarrow> NotStarted)\<rparr>)"
  by (auto simp: goalFromSection_def Let_def split: option.splits)

text \<open>
  Splitting at a separator: the pieces joined by the separator give the text back, no piece
  contains the separator, and in no piece but the last does the separator begin, not even
  overlapping the separator that follows.  Conversely a text put together from such pieces
  splits into exactly these pieces.
\<close>

lemma includesStr_iff:
  "includesStr s p \<longleftrightarrow> (\<exists>i\<le>length s. startsWith (drop i s) p)"
proof (induction s)
  case Nil
  show ?case by (auto simp: startsWith_def)
next
  case (Cons c cs)
  show ?case
  proof
    assume "includesStr (c # cs) p"
    then consider "startsWith (c # cs) p" | "includesStr cs p" by auto
    then show "\<exists>i\<le>length (c # cs). startsWith (drop i (c # cs)) p"
    proof cases
      case 1
      then show ?thesis by (intro exI[of _ 0]) simp
    next
      case 2
      then obtain i where "i \<le> length cs" "startsWith (drop i cs) p" using Cons by auto
      then show ?thesis by (intro exI[of _ "Suc i"]) simp
    qed
  next
    assume "\<exists>i\<le>length (c # cs). startsWith (drop i (c # cs)) p"
    then obtain i where i: "i \<le> length (c # cs)" "startsWith (drop i (c # cs)) p" by blast
    show "includesStr (c # cs) p"
    proof (cases i)
      case 0
      then show ?thesis using i by simp
    next
      case (Suc j)
      then show ?thesis using i Cons by auto
    qed
  qed
qed

lemma startsWith_length: "startsWith x p \<Longrightarrow> length p \<le> length x"
proof -
  assume "startsWith x p"
  then have "length (take (length p) x) = length p" by (simp add: startsWith_def)
  then show ?thesis by simp
qed

lemma startsWith_extend: "startsWith x p \<Longrightarrow> startsWith (x @ y) p"
  using startsWith_length[of x p] by (simp add: startsWith_def)

lemma startsWith_restrict:
  "startsWith (x @ y) p \<Longrightarrow> length p \<le> length x \<Longrightarrow> startsWith x p"
  by (simp add: startsWith_def)

lemma splitAcc_nonempty: "splitAcc sep cur s \<noteq> []"
  by (induction sep cur s rule: splitAcc.induct) auto

lemma joinStr_Cons: "xs \<noteq> [] \<Longrightarrow> joinStr sep (x # xs) = x @ sep @ joinStr sep xs"
  by (cases xs) simp_all

lemma joinStr_splitAcc: "joinStr sep (splitAcc sep cur s) = cur @ s"
proof (induction sep cur s rule: splitAcc.induct)
  case (1 sep cur)
  show ?case by simp
next
  case (2 sep cur c cs)
  show ?case
  proof (cases "sep \<noteq> [] \<and> startsWith (c # cs) sep")
    case True
    then have t: "take (length sep) (c # cs) = sep" by (simp add: startsWith_def)
    have "drop (length sep - 1) cs = drop (length sep) (c # cs)"
      using True by (cases sep) simp_all
    then have "sep @ drop (length sep - 1) cs
                = take (length sep) (c # cs) @ drop (length sep) (c # cs)"
      using t by simp
    then have "sep @ drop (length sep - 1) cs = c # cs"
      by (simp only: append_take_drop_id)
    then show ?thesis
      using True 2 by (simp add: joinStr_Cons splitAcc_nonempty)
  next
    case False
    then show ?thesis using 2 by auto
  qed
qed


lemma includesStr_empty: "includesStr s []"
  by (cases s) (simp_all add: startsWith_def)

lemma includesStr_extend: "includesStr x p \<Longrightarrow> includesStr (x @ y) p"
proof (induction x)
  case Nil
  then show ?case by (simp add: includesStr_empty)
next
  case (Cons a x)
  then show ?case using startsWith_extend[of "a # x" p y] by auto
qed

lemma set_butlast_last: "xs \<noteq> [] \<Longrightarrow> set xs = insert (last xs) (set (butlast xs))"
  by (induction xs) auto

lemma splitAcc_pieces:
  "sep \<noteq> [] \<Longrightarrow> \<forall>i<length cur. \<not> startsWith (drop i (cur @ s)) sep \<Longrightarrow>
   (\<forall>b\<in>set (butlast (splitAcc sep cur s)). \<not> includesStr (b @ butlast sep) sep)
   \<and> \<not> includesStr (last (splitAcc sep cur s)) sep"
proof (induction sep cur s rule: splitAcc.induct)
  case (1 sep cur)
  have "\<not> includesStr cur sep"
  proof
    assume "includesStr cur sep"
    then obtain i where i: "i \<le> length cur" "startsWith (drop i cur) sep"
      by (auto simp: includesStr_iff)
    then have "i < length cur"
      using startsWith_length[of "drop i cur" sep] "1.prems"(1) by (cases "i = length cur") auto
    then show False using "1.prems"(2) i by simp
  qed
  then show ?case by simp
next
  case (2 sep cur c cs)
  show ?case
  proof (cases "startsWith (c # cs) sep")
    case True
    have IH: "(\<forall>b\<in>set (butlast (splitAcc sep [] (drop (length sep - 1) cs))).
                 \<not> includesStr (b @ butlast sep) sep)
              \<and> \<not> includesStr (last (splitAcc sep [] (drop (length sep - 1) cs))) sep"
      using "2.IH"(1) "2.prems"(1) True by simp
    have t: "take (length sep) (c # cs) = sep" using True by (simp add: startsWith_def)
    have cs: "c # cs = butlast sep @ last sep # drop (length sep) (c # cs)"
    proof -
      have "c # cs = take (length sep) (c # cs) @ drop (length sep) (c # cs)"
        by (simp only: append_take_drop_id)
      moreover have "butlast sep @ [last sep] = sep" using "2.prems"(1) by simp
      ultimately have "c # cs = (butlast sep @ [last sep]) @ drop (length sep) (c # cs)"
        using t by simp
      then show ?thesis by simp
    qed
    have "\<not> includesStr (cur @ butlast sep) sep"
    proof
      assume "includesStr (cur @ butlast sep) sep"
      then obtain i where i: "i \<le> length (cur @ butlast sep)"
        "startsWith (drop i (cur @ butlast sep)) sep"
        by (auto simp: includesStr_iff)
      obtain n where n: "length sep = Suc n" using "2.prems"(1) by (cases sep) auto
      have "length sep \<le> length (cur @ butlast sep) - i"
        using startsWith_length[OF i(2)] by simp
      then have "Suc n \<le> length cur + n - i" by (simp add: n)
      then have "i < length cur" by arith
      have "startsWith (drop i (cur @ butlast sep)
                       @ last sep # drop (length sep) (c # cs)) sep"
        using i(2) by (rule startsWith_extend)
      then have "startsWith (drop i (cur @ c # cs)) sep"
        using i(1) by (subst cs) simp
      with \<open>i < length cur\<close> show False using "2.prems"(2) by blast
    qed
    then show ?thesis
      using True "2.prems"(1) IH by (simp add: splitAcc_nonempty)
  next
    case False
    have inv: "\<forall>i<length (cur @ [c]). \<not> startsWith (drop i ((cur @ [c]) @ cs)) sep"
    proof (intro allI impI)
      fix i assume "i < length (cur @ [c])"
      then consider "i < length cur" | "i = length cur" by fastforce
      then show "\<not> startsWith (drop i ((cur @ [c]) @ cs)) sep"
      proof cases
        case 1
        then show ?thesis using "2.prems"(2) by simp
      next
        case 2
        then show ?thesis using False by simp
      qed
    qed
    show ?thesis
      using "2.IH"(2)[OF _ "2.prems"(1) inv] False by simp
  qed
qed

lemma splitAcc_block:
  "sep \<noteq> [] \<Longrightarrow> \<forall>i<length p. \<not> startsWith (drop i (p @ sep @ rest)) sep \<Longrightarrow>
   splitAcc sep cur (p @ sep @ rest) = (cur @ p) # splitAcc sep [] rest"
proof (induction p arbitrary: cur)
  case Nil
  then obtain d ds where sep: "sep = d # ds" by (cases sep) auto
  have "startsWith (d # ds @ rest) (d # ds)" by (simp add: startsWith_def)
  then show ?case by (simp add: sep)
next
  case (Cons a p)
  have "\<not> startsWith (a # p @ sep @ rest) sep" using Cons.prems(2) by force
  moreover have "\<forall>i<length p. \<not> startsWith (drop i (p @ sep @ rest)) sep"
  proof (intro allI impI)
    fix i assume "i < length p"
    then have "\<not> startsWith (drop (Suc i) ((a # p) @ sep @ rest)) sep"
      using Cons.prems(2) by (metis Suc_less_eq length_Cons)
    then show "\<not> startsWith (drop i (p @ sep @ rest)) sep" by simp
  qed
  ultimately show ?case using Cons.IH[OF Cons.prems(1), of "cur @ [a]"] by simp
qed

lemma splitAcc_last:
  "\<not> includesStr s sep \<Longrightarrow> splitAcc sep cur s = [cur @ s]"
  by (induction s arbitrary: cur) auto

lemma block_no_occurrence:
  assumes "sep \<noteq> []" and "\<not> includesStr (b @ butlast sep) sep"
  shows "\<forall>i<length b. \<not> startsWith (drop i (b @ sep @ rest)) sep"
proof (intro allI impI notI)
  fix i assume i: "i < length b" and s: "startsWith (drop i (b @ sep @ rest)) sep"
  have "b @ sep @ rest = (b @ butlast sep) @ last sep # rest"
    using assms(1) by simp
  then have "drop i (b @ sep @ rest) = drop i (b @ butlast sep) @ last sep # rest"
    using i by simp
  moreover have "length sep \<le> length (drop i (b @ butlast sep))"
    using i assms(1) by (cases sep) auto
  ultimately have "startsWith (drop i (b @ butlast sep)) sep"
    using s startsWith_restrict by metis
  then have "includesStr (b @ butlast sep) sep"
    using i by (auto simp: includesStr_iff intro!: exI[of _ i])
  then show False using assms(2) by simp
qed

lemma splitStr_joinStr:
  assumes "sep \<noteq> []" and "blocks \<noteq> []"
    and "\<forall>b\<in>set (butlast blocks). \<not> includesStr (b @ butlast sep) sep"
    and "\<not> includesStr (last blocks) sep"
  shows "splitStr sep (joinStr sep blocks) = blocks"
  using assms(2-4)
proof (induction blocks rule: list_nonempty_induct)
  case (single b)
  then show ?case by (simp add: splitStr_def splitAcc_last)
next
  case (cons b bs)
  have "splitStr sep (joinStr sep bs) = bs" using cons by simp
  moreover have "\<forall>i<length b. \<not> startsWith (drop i (b @ sep @ joinStr sep bs)) sep"
    using cons.prems(1) cons.hyps(1) block_no_occurrence[OF assms(1), of b] by simp
  ultimately show ?case
    using cons.hyps(1) splitAcc_block[OF assms(1), of b "joinStr sep bs" "[]"]
    by (simp add: splitStr_def joinStr_Cons)
qed

lemma splitStr_blocks:
  assumes "sep \<noteq> []"
  shows "joinStr sep (splitStr sep s) = s"
    and "splitStr sep s \<noteq> []"
    and "\<forall>b\<in>set (butlast (splitStr sep s)). \<not> includesStr (b @ butlast sep) sep"
    and "\<not> includesStr (last (splitStr sep s)) sep"
    and "\<forall>b\<in>set (splitStr sep s). \<not> includesStr b sep"
proof -
  show j: "joinStr sep (splitStr sep s) = s" by (simp add: splitStr_def joinStr_splitAcc)
  show n: "splitStr sep s \<noteq> []" by (simp add: splitStr_def splitAcc_nonempty)
  have p: "(\<forall>b\<in>set (butlast (splitStr sep s)). \<not> includesStr (b @ butlast sep) sep)
        \<and> \<not> includesStr (last (splitStr sep s)) sep"
    unfolding splitStr_def using splitAcc_pieces[OF assms, of "[]" s] by simp
  then show b: "\<forall>b\<in>set (butlast (splitStr sep s)). \<not> includesStr (b @ butlast sep) sep"
    and l: "\<not> includesStr (last (splitStr sep s)) sep" by simp_all
  show "\<forall>b\<in>set (splitStr sep s). \<not> includesStr b sep"
  proof
    fix x assume x: "x \<in> set (splitStr sep s)"
    show "\<not> includesStr x sep"
    proof (cases "x = last (splitStr sep s)")
      case True
      then show ?thesis using l by simp
    next
      case False
      then have "x \<in> set (butlast (splitStr sep s))"
        using x set_butlast_last[OF n] by simp
      then have "\<not> includesStr (x @ butlast sep) sep" using b by simp
      then show ?thesis using includesStr_extend[of x sep "butlast sep"] by blast
    qed
  qed
qed

lemma startsWith_single: "startsWith r [d] \<longleftrightarrow> r \<noteq> [] \<and> hd r = d"
  by (cases r) (simp_all add: startsWith_def)

lemma takeWhile_nonempty: "takeWhile P r \<noteq> [] \<longleftrightarrow> r \<noteq> [] \<and> P (hd r)"
  by (cases r) simp_all

lemma matchLineField_present:
  "matchLineField label s \<noteq> None \<longleftrightarrow>
     (\<exists>d. \<not> isLineTerminator d \<and> includesStr s (label @ [d]))"
proof (induction s)
  case Nil
  show ?case by simp
next
  case (Cons c cs)
  have "startsWith (c # cs) label
          \<and> takeWhile (\<lambda>d. \<not> isLineTerminator d) (drop (length label) (c # cs)) \<noteq> []
        \<longleftrightarrow> (\<exists>d. \<not> isLineTerminator d \<and> startsWith (c # cs) (label @ [d]))"
    unfolding startsWith_append startsWith_single takeWhile_nonempty by blast
  then show ?case using Cons by (auto simp: Let_def)
qed

lemma set_map_filter_Some:
  "set (List.map_filter f xs) = {y. \<exists>x\<in>set xs. f x = Some y}"
  by (induction xs) (auto simp: map_filter_simps split: option.splits)

lemma length_map_filter:
  "length (List.map_filter f xs) = length (filter (\<lambda>x. f x \<noteq> None) xs)"
  by (induction xs) (auto simp: map_filter_simps split: option.splits)

text \<open>
  C5. The response is cut at blank lines into blocks: the blocks joined by blank lines are
  the response, no block contains a blank line, and a response put together from such
  blocks is cut into exactly these blocks.  A block that does not contain
  \<^verbatim>\<open>Description:\<close> gives no goal, whatever else it contains; a block gives a goal iff
  both the title pattern and the description pattern match in it, that is, iff it contains
  each of the two labels followed by a character of the same line.  So every goal returned
  comes from a block of the response that contains both a title and a description, and
  there are as many goals as such blocks.  The goal of a retained block has its progress in
  0..100 (the matched number clamped, 0 without a match) and the status that the status
  pattern matched, not-started when the pattern does not match: when no status line with
  one of the three names is there.  The operation returns the goals of the blocks of the
  response, in order, and no goals when the model call fails.
\<close>

theorem analyzeGoals_blocks:
  "(\<not> includesStr section ''Description:'' \<longrightarrow> goalFromSection section = None)
   \<and> (goalFromSection section \<noteq> None \<longleftrightarrow>
        matchLineField ''Title: '' section \<noteq> None
        \<and> matchLineField ''Description: '' section \<noteq> None)
   \<and> (\<forall>g. goalFromSection section = Some g \<longrightarrow>
          0 \<le> ExtractedGoal.progress g \<and> ExtractedGoal.progress g \<le> 100
          \<and> ExtractedGoal.progress g =
              (case matchProgress section of
                 Some ds \<Rightarrow> clamp100 (int (digitsToNat ds)) | None \<Rightarrow> 0)
          \<and> ExtractedGoal.status g =
              (case matchStatus section of Some s \<Rightarrow> s | None \<Rightarrow> NotStarted)
          \<and> (\<not> includesStr section ''Status: not-started''
               \<and> \<not> includesStr section ''Status: in-progress''
               \<and> \<not> includesStr section ''Status: achieved''
               \<longrightarrow> ExtractedGoal.status g = NotStarted))
   \<and> fst (analyzeGoals e messages w) =
       Inr (case generateContent_result e (length (prompts w)) (goalsPrompt messages) of
              Inl err \<Rightarrow> []
            | Inr response \<Rightarrow>
                List.map_filter goalFromSection (splitStr ''\<newline>\<newline>'' response))
   \<and> (blocks \<noteq> []
        \<and> (\<forall>b\<in>set (butlast blocks). \<not> includesStr (b @ ''\<newline>'') ''\<newline>\<newline>'')
        \<and> \<not> includesStr (last blocks) ''\<newline>\<newline>''
        \<longrightarrow> splitStr ''\<newline>\<newline>'' (joinStr ''\<newline>\<newline>'' blocks) = blocks
            \<and> goalsFromResponse (joinStr ''\<newline>\<newline>'' blocks)
                = List.map_filter goalFromSection blocks)
   \<and> joinStr ''\<newline>\<newline>'' (splitStr ''\<newline>\<newline>'' response) = response
   \<and> splitStr ''\<newline>\<newline>'' response \<noteq> []
   \<and> (\<forall>b\<in>set (splitStr ''\<newline>\<newline>'' response). \<not> includesStr b ''\<newline>\<newline>'')
   \<and> (\<forall>b\<in>set (butlast (splitStr ''\<newline>\<newline>'' response)).
          \<not> includesStr (b @ ''\<newline>'') ''\<newline>\<newline>'')
   \<and> goalsFromResponse response
       = List.map_filter goalFromSection (splitStr ''\<newline>\<newline>'' response)
   \<and> (\<forall>g\<in>set (goalsFromResponse response).
          \<exists>b\<in>set (splitStr ''\<newline>\<newline>'' response).
            goalFromSection b = Some g
            \<and> includesStr b ''Title: '' \<and> includesStr b ''Description: '')
   \<and> length (goalsFromResponse response)
       = length (filter (\<lambda>b. matchLineField ''Title: '' b \<noteq> None
                             \<and> matchLineField ''Description: '' b \<noteq> None)
                   (splitStr ''\<newline>\<newline>'' response))
   \<and> (goalFromSection section \<noteq> None \<longleftrightarrow>
        (\<exists>d. \<not> isLineTerminator d \<and> includesStr section (''Title: '' @ [d]))
        \<and> (\<exists>d. \<not> isLineTerminator d \<and> includesStr section (''Description: '' @ [d])))"
proof -
  have sep: "''\<newline>\<newline>'' \<noteq> []" and bl: "butlast ''\<newline>\<newline>'' = ''\<newline>''" by simp_all
  have both: "\<And>b. goalFromSection b \<noteq> None \<longleftrightarrow>
        matchLineField ''Title: '' b \<noteq> None \<and> matchLineField ''Description: '' b \<noteq> None"
    by (auto simp: goalFromSection_def Let_def split: option.splits)
  have c1: "\<not> includesStr section ''Description:'' \<longrightarrow> goalFromSection section = None"
  proof
    assume "\<not> includesStr section ''Description:''"
    then have "\<not> includesStr section ''Description: ''"
      using includesStr_prefix[of "section" "''Description:''" "'' ''"] by auto
    then have "matchLineField ''Description: '' section = None"
      using matchLineField_includes[of "''Description: ''" "section"]
      by (cases "matchLineField ''Description: '' section") auto
    then show "goalFromSection section = None"
      by (simp add: goalFromSection_def Let_def split: option.splits)
  qed
  have c3: "\<forall>g. goalFromSection section = Some g \<longrightarrow>
          0 \<le> ExtractedGoal.progress g \<and> ExtractedGoal.progress g \<le> 100
          \<and> ExtractedGoal.progress g =
              (case matchProgress section of
                 Some ds \<Rightarrow> clamp100 (int (digitsToNat ds)) | None \<Rightarrow> 0)
          \<and> ExtractedGoal.status g =
              (case matchStatus section of Some s \<Rightarrow> s | None \<Rightarrow> NotStarted)
          \<and> (\<not> includesStr section ''Status: not-started''
               \<and> \<not> includesStr section ''Status: in-progress''
               \<and> \<not> includesStr section ''Status: achieved''
               \<longrightarrow> ExtractedGoal.status g = NotStarted)"
  proof (intro allI impI conjI)
    fix g assume g: "goalFromSection section = Some g"
    then show "0 \<le> ExtractedGoal.progress g" "ExtractedGoal.progress g \<le> 100"
      using clamp100_range by (auto simp: goalFromSection_Some split: option.splits)
    from g show "ExtractedGoal.progress g =
              (case matchProgress section of
                 Some ds \<Rightarrow> clamp100 (int (digitsToNat ds)) | None \<Rightarrow> 0)"
      and st: "ExtractedGoal.status g =
              (case matchStatus section of Some s \<Rightarrow> s | None \<Rightarrow> NotStarted)"
      by (auto simp: goalFromSection_Some)
    assume "\<not> includesStr section ''Status: not-started''
               \<and> \<not> includesStr section ''Status: in-progress''
               \<and> \<not> includesStr section ''Status: achieved''"
    then have "matchStatus section = None" by (simp add: matchStatus_None)
    with st show "ExtractedGoal.status g = NotStarted" by simp
  qed
  have c4: "fst (analyzeGoals e messages w) =
       Inr (case generateContent_result e (length (prompts w)) (goalsPrompt messages) of
              Inl err \<Rightarrow> []
            | Inr response \<Rightarrow>
                List.map_filter goalFromSection (splitStr ''\<newline>\<newline>'' response))"
    by (simp add: analyzeGoals_def tryCatch_generate goalsFromResponse_def split: sum.splits)
  have c5: "blocks \<noteq> []
        \<and> (\<forall>b\<in>set (butlast blocks). \<not> includesStr (b @ ''\<newline>'') ''\<newline>\<newline>'')
        \<and> \<not> includesStr (last blocks) ''\<newline>\<newline>''
        \<longrightarrow> splitStr ''\<newline>\<newline>'' (joinStr ''\<newline>\<newline>'' blocks) = blocks
            \<and> goalsFromResponse (joinStr ''\<newline>\<newline>'' blocks)
                = List.map_filter goalFromSection blocks"
  proof
    assume a: "blocks \<noteq> []
        \<and> (\<forall>b\<in>set (butlast blocks). \<not> includesStr (b @ ''\<newline>'') ''\<newline>\<newline>'')
        \<and> \<not> includesStr (last blocks) ''\<newline>\<newline>''"
    then have "splitStr ''\<newline>\<newline>'' (joinStr ''\<newline>\<newline>'' blocks) = blocks"
      using splitStr_joinStr[OF sep, of blocks] unfolding bl by blast
    then show "splitStr ''\<newline>\<newline>'' (joinStr ''\<newline>\<newline>'' blocks) = blocks
            \<and> goalsFromResponse (joinStr ''\<newline>\<newline>'' blocks)
                = List.map_filter goalFromSection blocks"
      by (simp add: goalsFromResponse_def)
  qed
  note sp = splitStr_blocks[OF sep, of response, unfolded bl]
  have c10: "goalsFromResponse response
       = List.map_filter goalFromSection (splitStr ''\<newline>\<newline>'' response)"
    by (simp add: goalsFromResponse_def)
  have c11: "\<forall>g\<in>set (goalsFromResponse response).
          \<exists>b\<in>set (splitStr ''\<newline>\<newline>'' response).
            goalFromSection b = Some g
            \<and> includesStr b ''Title: '' \<and> includesStr b ''Description: ''"
  proof
    fix g assume "g \<in> set (goalsFromResponse response)"
    then obtain b where b: "b \<in> set (splitStr ''\<newline>\<newline>'' response)" "goalFromSection b = Some g"
      unfolding c10 set_map_filter_Some by blast
    then obtain t d where "matchLineField ''Title: '' b = Some t"
      "matchLineField ''Description: '' b = Some d"
      by (auto simp: goalFromSection_Some)
    then have "includesStr b ''Title: ''" "includesStr b ''Description: ''"
      by (auto dest: matchLineField_includes)
    with b show "\<exists>b\<in>set (splitStr ''\<newline>\<newline>'' response).
            goalFromSection b = Some g
            \<and> includesStr b ''Title: '' \<and> includesStr b ''Description: ''"
      by blast
  qed
  have c12: "length (goalsFromResponse response)
       = length (filter (\<lambda>b. matchLineField ''Title: '' b \<noteq> None
                             \<and> matchLineField ''Description: '' b \<noteq> None)
                   (splitStr ''\<newline>\<newline>'' response))"
    unfolding c10 length_map_filter both ..
  have c13: "goalFromSection section \<noteq> None \<longleftrightarrow>
        (\<exists>d. \<not> isLineTerminator d \<and> includesStr section (''Title: '' @ [d]))
        \<and> (\<exists>d. \<not> isLineTerminator d \<and> includesStr section (''Description: '' @ [d]))"
    unfolding both matchLineField_present ..
  from c1 both[of "section"] c3 c4 c5 sp(1) sp(2) sp(5) sp(3) c10 c11 c12 c13
  show ?thesis by (intro conjI)
qed

theorem analyzeGoals_blocks_witness:
  "\<not> includesStr ''Title: Sleep better\<newline>Progress: 10%'' ''Description:''
   \<and> goalFromSection ''Title: Sleep better\<newline>Progress: 10%'' = None
   \<and> goalFromSection
       ''Title: Sleep better\<newline>Description: sleep 8h\<newline>Progress: 140%\<newline>Status: done''
     = Some \<lparr>title = ''Sleep better'', description = ''sleep 8h'',
             ExtractedGoal.progress = 100, ExtractedGoal.status = NotStarted\<rparr>
   \<and> goalsFromResponse ''Title: A\<newline>Progress: 5%\<newline>\<newline>Description: d'' = []
   \<and> goalsFromResponse
       ''Title: A\<newline>Description: d\<newline>Progress: 5%\<newline>\<newline>Title: B\<newline>Status: achieved\<newline>\<newline>Title: C\<newline>Description: f\<newline>Status: achieved''
     = [\<lparr>title = ''A'', description = ''d'',
         ExtractedGoal.progress = 5, ExtractedGoal.status = NotStarted\<rparr>,
        \<lparr>title = ''C'', description = ''f'',
         ExtractedGoal.progress = 0, ExtractedGoal.status = Achieved\<rparr>]"
proof -
  have a: "\<not> includesStr ''Title: Sleep better\<newline>Progress: 10%'' ''Description:''"
    by code_simp
  have b: "goalFromSection
       ''Title: Sleep better\<newline>Description: sleep 8h\<newline>Progress: 140%\<newline>Status: done''
     = Some \<lparr>title = ''Sleep better'', description = ''sleep 8h'',
             ExtractedGoal.progress = 100, ExtractedGoal.status = NotStarted\<rparr>"
    by code_simp
  have "\<not> includesStr ''Title: Sleep better\<newline>Progress: 10%'' ''Description:''
        \<longrightarrow> goalFromSection ''Title: Sleep better\<newline>Progress: 10%'' = None"
    using analyzeGoals_blocks [of "''Title: Sleep better\<newline>Progress: 10%''"]
    by (rule conjunct1)
  from this a have c: "goalFromSection ''Title: Sleep better\<newline>Progress: 10%'' = None"
    by (rule mp)
  define two where "two = [''Title: A\<newline>Progress: 5%'', ''Description: d'']"
  define three where "three = [''Title: A\<newline>Description: d\<newline>Progress: 5%'',
     ''Title: B\<newline>Status: achieved'', ''Title: C\<newline>Description: f\<newline>Status: achieved'']"
  have h2: "two \<noteq> []
        \<and> (\<forall>b\<in>set (butlast two). \<not> includesStr (b @ ''\<newline>'') ''\<newline>\<newline>'')
        \<and> \<not> includesStr (last two) ''\<newline>\<newline>''"
    unfolding two_def by code_simp
  have h3: "three \<noteq> []
        \<and> (\<forall>b\<in>set (butlast three). \<not> includesStr (b @ ''\<newline>'') ''\<newline>\<newline>'')
        \<and> \<not> includesStr (last three) ''\<newline>\<newline>''"
    unfolding three_def by code_simp
  have "goalsFromResponse (joinStr ''\<newline>\<newline>'' two) = List.map_filter goalFromSection two"
    using analyzeGoals_blocks [where blocks = two] h2 by blast
  moreover have "joinStr ''\<newline>\<newline>'' two = ''Title: A\<newline>Progress: 5%\<newline>\<newline>Description: d''"
    unfolding two_def by simp
  moreover have "List.map_filter goalFromSection two = []"
    unfolding two_def by code_simp
  ultimately have d: "goalsFromResponse ''Title: A\<newline>Progress: 5%\<newline>\<newline>Description: d'' = []"
    by simp
  have "goalsFromResponse (joinStr ''\<newline>\<newline>'' three) = List.map_filter goalFromSection three"
    using analyzeGoals_blocks [where blocks = three] h3 by blast
  moreover have "joinStr ''\<newline>\<newline>'' three =
       ''Title: A\<newline>Description: d\<newline>Progress: 5%\<newline>\<newline>Title: B\<newline>Status: achieved\<newline>\<newline>Title: C\<newline>Description: f\<newline>Status: achieved''"
    unfolding three_def by simp
  moreover have "List.map_filter goalFromSection three
     = [\<lparr>title = ''A'', description = ''d'',
         ExtractedGoal.progress = 5, ExtractedGoal.status = NotStarted\<rparr>,
        \<lparr>title = ''C'', description = ''f'',
         ExtractedGoal.progress = 0, ExtractedGoal.status = Achieved\<rparr>]"
    unfolding three_def by code_simp
  ultimately have f: "goalsFromResponse
       ''Title: A\<newline>Description: d\<newline>Progress: 5%\<newline>\<newline>Title: B\<newline>Status: achieved\<newline>\<newline>Title: C\<newline>Description: f\<newline>Status: achieved''
     = [\<lparr>title = ''A'', description = ''d'',
         ExtractedGoal.progress = 5, ExtractedGoal.status = NotStarted\<rparr>,
        \<lparr>title = ''C'', description = ''f'',
         ExtractedGoal.progress = 0, ExtractedGoal.status = Achieved\<rparr>]"
    by simp
  from a c b d f show ?thesis by (intro conjI)
qed

subsection \<open>retryOperation\<close>

lemma attemptState_shift:
  "attemptState operation (Suc k) w =
   attemptState operation k (setTimeout RETRY_DELAY (snd (operation w)))"
  by (induction k) simp_all

lemma retryOperation_success:
  "operation w = (Inr v, w') \<Longrightarrow> retryOperation operation retries w = (Inr v, w')"
  by (subst retryOperation.simps) simp

lemma retryOperation_failure:
  "operation w = (Inl err, w') \<Longrightarrow>
   retryOperation operation retries w =
     (case retries of 0 \<Rightarrow> (Inl err, w')
      | Suc n \<Rightarrow> retryOperation operation n (setTimeout RETRY_DELAY w'))"
  by (subst retryOperation.simps) (simp split: nat.splits)

lemma retryOperation_attempts:
  "\<exists>k\<le>retries.
     (\<forall>j<k. isl (fst (operation (attemptState operation j w))))
     \<and> retryOperation operation retries w = operation (attemptState operation k w)
     \<and> (isl (fst (operation (attemptState operation k w))) \<longrightarrow> k = retries)"
proof (induction retries arbitrary: w)
  case 0
  show ?case
    by (cases "operation w"; cases "fst (operation w)")
       (auto simp: retryOperation_success retryOperation_failure)
next
  case (Suc n)
  obtain r w' where ow: "operation w = (r, w')" by (cases "operation w")
  show ?case
  proof (cases r)
    case (Inr v)
    then have "retryOperation operation (Suc n) w = operation (attemptState operation 0 w)"
      using ow by (simp add: retryOperation_success)
    moreover have "\<not> isl (fst (operation (attemptState operation 0 w)))"
      using ow Inr by simp
    ultimately show ?thesis by (intro exI[of _ 0]) simp
  next
    case (Inl err)
    let ?w1 = "setTimeout RETRY_DELAY w'"
    from Suc.IH[of ?w1] obtain k where k: "k \<le> n"
      and fails: "\<forall>j<k. isl (fst (operation (attemptState operation j ?w1)))"
      and res: "retryOperation operation n ?w1 = operation (attemptState operation k ?w1)"
      and last: "isl (fst (operation (attemptState operation k ?w1))) \<longrightarrow> k = n"
      by blast
    have shift: "\<And>j. attemptState operation (Suc j) w = attemptState operation j ?w1"
      by (simp only: attemptState_shift ow snd_conv)
    have "\<forall>j<Suc k. isl (fst (operation (attemptState operation j w)))"
    proof (intro allI impI)
      fix j assume "j < Suc k"
      then show "isl (fst (operation (attemptState operation j w)))"
        using fails ow Inl shift by (cases j) auto
    qed
    moreover have "retryOperation operation (Suc n) w = operation (attemptState operation (Suc k) w)"
      using ow Inl res shift by (simp add: retryOperation_failure)
    moreover have "isl (fst (operation (attemptState operation (Suc k) w))) \<longrightarrow> Suc k = Suc n"
      using last shift by simp
    ultimately show ?thesis using k by (intro exI[of _ "Suc k"]) simp
  qed
qed

lemma attemptState_delays:
  "(\<forall>v. delays (snd (operation v)) = delays v) \<Longrightarrow>
   delays (attemptState operation k w) = delays w @ replicate k RETRY_DELAY"
  by (induction k) (simp_all add: setTimeout_def replicate_append_same)

text \<open>
  C8. With a budget of \<open>retries\<close> (3 by default) the wrapper invokes the operation, and
  after each failure waits the fixed delay of 1000 ms and invokes it again with the budget
  decremented: there is a number \<open>k\<close> of failed invocations, at most the budget, such that
  the result is that of invocation \<open>k + 1\<close> (at most \<open>retries + 1\<close> invocations, 4 by
  default), which is a failure only when the budget is exhausted, and is then returned
  unchanged.  When the operation itself does not wait, the delays waited are exactly \<open>k\<close>
  times 1000 ms.
\<close>

theorem retryOperation_budget:
  "MAX_RETRIES = 3 \<and> RETRY_DELAY = 1000
   \<and> (\<exists>k\<le>retries.
        (\<forall>j<k. isl (fst (operation (attemptState operation j w))))
        \<and> retryOperation operation retries w = operation (attemptState operation k w)
        \<and> (isl (fst (operation (attemptState operation k w))) \<longrightarrow> k = retries)
        \<and> ((\<forall>v. delays (snd (operation v)) = delays v) \<longrightarrow>
             delays (attemptState operation k w) = delays w @ replicate k 1000))"
proof -
  from retryOperation_attempts[of retries operation w] obtain k where "k \<le> retries"
    "\<forall>j<k. isl (fst (operation (attemptState operation j w)))"
    "retryOperation operation retries w = operation (attemptState operation k w)"
    "isl (fst (operation (attemptState operation k w))) \<longrightarrow> k = retries"
    by blast
  moreover have "(\<forall>v. delays (snd (operation v)) = delays v) \<longrightarrow>
             delays (attemptState operation k w) = delays w @ replicate k 1000"
    using attemptState_delays[of operation k w] by (simp add: RETRY_DELAY_def)
  ultimately show ?thesis
    by (auto simp: MAX_RETRIES_def RETRY_DELAY_def)
qed

theorem retryOperation_budget_witness:
  "fst (retryOperation (throw (Error ''quota'') :: unit io) MAX_RETRIES
          \<lparr>prompts = [], storage = None, getItems = 0, setItems = 0, delays = []\<rparr>)
     = Inl (Error ''quota'')
   \<and> delays (snd (retryOperation (throw (Error ''quota'') :: unit io) MAX_RETRIES
          \<lparr>prompts = [], storage = None, getItems = 0, setItems = 0, delays = []\<rparr>))
     = [1000, 1000, 1000]"
proof -
  define w :: world where
    "w = \<lparr>prompts = [], storage = None, getItems = 0, setItems = 0, delays = []\<rparr>"
  define op :: "unit io" where "op = throw (Error ''quota'')"
  have fails: "\<And>v. op v = (Inl (Error ''quota''), v)" by (simp add: op_def throw_def)
  from retryOperation_budget[of MAX_RETRIES op w] obtain k where k: "k \<le> MAX_RETRIES"
    and res: "retryOperation op MAX_RETRIES w = op (attemptState op k w)"
    and last: "isl (fst (op (attemptState op k w))) \<longrightarrow> k = MAX_RETRIES"
    and del: "(\<forall>v. delays (snd (op v)) = delays v) \<longrightarrow>
             delays (attemptState op k w) = delays w @ replicate k 1000"
    by blast
  have k3: "k = 3" using last fails by (simp add: MAX_RETRIES_def)
  have "delays (attemptState op k w) = [1000, 1000, 1000]"
    using del fails k3 by (simp add: w_def numeral_3_eq_3)
  then have "fst (retryOperation op MAX_RETRIES w) = Inl (Error ''quota'')
     \<and> delays (snd (retryOperation op MAX_RETRIES w)) = [1000, 1000, 1000]"
    using res fails by simp
  then show ?thesis unfolding op_def w_def .
qed
subsection \<open>saveProgress\<close>

lemma filterValid_Conforming: "filterValid (map Conforming xs) = Inr xs"
  by (induction xs) simp_all

lemma validHistory_Conforming [simp]: "validHistory (Some (JsonArray (map Conforming xs))) = xs"
  by (simp add: validHistory_def filterValid_Conforming)

lemma getProgressHistory_eq:
  "getProgressHistory e w =
     (Inr (if getItem_result e (getItems w) = None then validHistory (storage w) else []),
      w\<lparr>getItems := Suc (getItems w)\<rparr>)"
  by (auto simp: getProgressHistory_def tryCatch_def andThen_def getItem_def succeed_def lift_def
        jsonParse_def validHistory_def split: option.splits payload.splits sum.splits)

lemma sliceFrom_last50: "sliceFrom (- 50) xs = drop (length xs - 50) xs"
  by (simp add: sliceFrom_def Let_def max_def nat_diff_distrib') 

lemma retry_setItem:
  "retryOperation (setItem e p) n w = (r, w') \<Longrightarrow>
   prompts w' = prompts w \<and> getItems w' = getItems w \<and> setItems w < setItems w'
   \<and> (case r of Inr u \<Rightarrow> storage w' = Some p | Inl err \<Rightarrow> storage w' = storage w)"
proof (induction n arbitrary: w)
  case 0
  then show ?case
    by (subst (asm) retryOperation.simps)
       (auto simp: setItem_def split: option.splits)
next
  case (Suc n)
  show ?case
  proof (cases "setItem_result e (setItems w)")
    case None
    then show ?thesis using Suc.prems
      by (subst (asm) retryOperation.simps) (auto simp: setItem_def)
  next
    case (Some err)
    let ?w1 = "setTimeout RETRY_DELAY (w\<lparr>setItems := Suc (setItems w)\<rparr>)"
    from Some Suc.prems have "retryOperation (setItem e p) n ?w1 = (r, w')"
      by (subst (asm) retryOperation.simps) (simp add: setItem_def)
    from Suc.IH[OF this] show ?thesis
      by (auto simp: setTimeout_def split: sum.splits)
  qed
qed

lemma saveProgress_eq:
  "saveProgress e d w =
     (case retryOperation
             (setItem e (JsonArray (map Conforming
                (sliceFrom (- 50)
                   ((if getItem_result e (getItems w) = None then validHistory (storage w) else [])
                    @ [d])))))
             MAX_RETRIES (w\<lparr>getItems := Suc (getItems w)\<rparr>) of
        (Inl err, w') \<Rightarrow> (Inl (Error ''Failed to save progress data''), w')
      | (Inr u, w') \<Rightarrow> (Inr u, w'))"
  by (simp add: saveProgress_def tryCatch_def andThen_def lift_def getProgressHistory_eq throw_def
        Let_def split: prod.splits sum.splits)


text \<open>
  C4. A write reads the existing history, appends the new record and stores the last 50
  entries of the result: at most 50 records, the new one last, the oldest dropped first, so
  that writing to a history of 50 evicts its first record.  A write that fails leaves the
  store as it was, and a history of at most 50 records stays one of at most 50 records.
\<close>

theorem saveProgress_cap:
  assumes "getProgressHistory e w = (Inr existingData, w1)"
    and "saveProgress e progressData w = (r, w')"
  shows "(r = Inr () \<longrightarrow>
            storage w' = Some (JsonArray (map Conforming
                           (sliceFrom (- 50) (existingData @ [progressData])))))
       \<and> (r \<noteq> Inr () \<longrightarrow>
            r = Inl (Error ''Failed to save progress data'') \<and> storage w' = storage w)
       \<and> length (sliceFrom (- 50) (existingData @ [progressData])) \<le> 50
       \<and> sliceFrom (- 50) (existingData @ [progressData])
           = drop (length existingData - 49) existingData @ [progressData]
       \<and> (length existingData = 50 \<longrightarrow>
            sliceFrom (- 50) (existingData @ [progressData]) = tl existingData @ [progressData])
       \<and> (length (validHistory (storage w)) \<le> 50 \<longrightarrow> length (validHistory (storage w')) \<le> 50)"
proof -
  let ?new = "sliceFrom (- 50) (existingData @ [progressData])"
  let ?w1 = "w\<lparr>getItems := Suc (getItems w)\<rparr>"
  have H: "existingData =
        (if getItem_result e (getItems w) = None then validHistory (storage w) else [])"
    using assms(1) by (simp add: getProgressHistory_eq)
  obtain r0 where r0: "retryOperation (setItem e (JsonArray (map Conforming ?new))) MAX_RETRIES ?w1
                       = (r0, w')"
    and r: "r = (case r0 of Inl err \<Rightarrow> Inl (Error ''Failed to save progress data'')
                 | Inr u \<Rightarrow> Inr u)"
    using assms(2) unfolding saveProgress_eq H[symmetric]
    by (auto split: prod.splits sum.splits)
  from retry_setItem[OF r0]
  have st: "(case r0 of Inr u \<Rightarrow> storage w' = Some (JsonArray (map Conforming ?new))
             | Inl err \<Rightarrow> storage w' = storage w)"
    by (cases r0) simp_all
  have len: "length ?new \<le> 50" by (simp add: sliceFrom_last50)
  have c1: "r = Inr () \<longrightarrow> storage w' = Some (JsonArray (map Conforming ?new))"
    using r st by (cases r0) auto
  have c2: "r \<noteq> Inr () \<longrightarrow>
            r = Inl (Error ''Failed to save progress data'') \<and> storage w' = storage w"
    using r st by (cases r0) auto
  have c4: "?new = drop (length existingData - 49) existingData @ [progressData]"
    by (simp add: sliceFrom_last50)
  have c5: "length existingData = 50 \<longrightarrow> ?new = tl existingData @ [progressData]"
    using c4 by (simp add: drop_Suc)
  have c6: "length (validHistory (storage w)) \<le> 50 \<longrightarrow> length (validHistory (storage w')) \<le> 50"
  proof (cases r0)
    case (Inl err)
    then show ?thesis using st by simp
  next
    case (Inr u)
    then show ?thesis using st len by simp
  qed
  from c1 c2 len c4 c5 c6 show ?thesis by (intro conjI)
qed

theorem saveProgress_cap_witness:
  "storage (snd (saveProgress (steadyEnv []) (blankRecord ''new'')
      (freshWorld\<lparr>storage := Some (JsonArray (map Conforming
          (blankRecord ''first'' # replicate 49 (blankRecord ''old''))))\<rparr>)))
   = Some (JsonArray (map Conforming (replicate 49 (blankRecord ''old'') @ [blankRecord ''new''])))"
proof -
  define H where "H = blankRecord ''first'' # replicate 49 (blankRecord ''old'')"
  define w where "w = freshWorld\<lparr>storage := Some (JsonArray (map Conforming H))\<rparr>"
  define e where "e = steadyEnv []"
  define d where "d = blankRecord ''new''"
  have g: "getProgressHistory e w = (Inr H, w\<lparr>getItems := Suc (getItems w)\<rparr>)"
    by (simp add: getProgressHistory_eq e_def steadyEnv_def w_def)
  have "setItem e p v = (Inr (), v\<lparr>storage := Some p, setItems := Suc (setItems v)\<rparr>)" for p v
    by (simp add: setItem_def e_def steadyEnv_def)
  then have s: "fst (saveProgress e d w) = Inr ()"
    by (simp add: saveProgress_eq retryOperation_success)
  have lenH: "length H = 50" by (simp add: H_def)
  have tlH: "tl H = replicate 49 (blankRecord ''old'')" by (simp add: H_def)
  from saveProgress_cap[OF g prod.collapse[symmetric], of d]
  have "storage (snd (saveProgress e d w))
        = Some (JsonArray (map Conforming (sliceFrom (- 50) (H @ [d]))))"
    and "sliceFrom (- 50) (H @ [d]) = tl H @ [d]"
    using s lenH by (simp_all add: drop_Suc)
  then have "storage (snd (saveProgress e d w))
        = Some (JsonArray (map Conforming (replicate 49 (blankRecord ''old'') @ [d])))"
    using tlH by simp
  then show ?thesis unfolding w_def H_def e_def d_def .
qed
subsection \<open>calculateEngagementTrend\<close>

lemma segmentSize_pos: "i < length messages \<Longrightarrow> 0 < segmentSize messages"
  unfolding segmentSize_def by arith

lemma concat_segmentsFrom: "concat (segmentsFrom messages i) = drop i messages"
proof (induction messages i rule: segmentsFrom.induct)
  case (1 messages i)
  show ?case
  proof (cases "i < length messages")
    case True
    have "drop (i + segmentSize messages) messages
          = drop (segmentSize messages) (drop i messages)"
      by (simp add: add.commute)
    then have "take (segmentSize messages) (drop i messages) @ drop (i + segmentSize messages) messages
          = drop i messages"
      by (simp only: append_take_drop_id)
    then show ?thesis
      using 1 True by (subst segmentsFrom.simps) (simp add: slice_def)
  next
    case False
    then show ?thesis by (subst segmentsFrom.simps) simp
  qed
qed

lemma div_ceil_step:
  fixes s d :: nat
  assumes "0 < s" "0 < d"
  shows "(d + s - 1) div s = Suc ((d - s + s - 1) div s)"
proof (cases "s \<le> d")
  case True
  have a: "d + s - 1 = (d - 1) + s" using assms by arith
  have b: "d - s + s - 1 = d - 1" using True by arith
  have "((d - 1) + s) div s = Suc ((d - 1) div s)"
    using assms(1) div_add_self2[of s "d - 1"] by simp
  then show ?thesis unfolding a b .
next
  case False
  then have b: "d - s + s - 1 = s - 1" by arith
  have c: "(s - 1) div s = 0" using assms(1) by simp
  have "(d + s - 1) div s = 1"
  proof (rule div_nat_eqI)
    show "s * 1 \<le> d + s - 1" using assms by arith
    show "d + s - 1 < s * Suc 1" using False assms by arith
  qed
  then show ?thesis unfolding b c by simp
qed

lemma length_segmentsFrom:
  "length (segmentsFrom messages i) =
     (if i < length messages
      then (length messages - i + segmentSize messages - 1) div segmentSize messages else 0)"
proof (induction messages i rule: segmentsFrom.induct)
  case (1 messages i)
  show ?case
  proof (cases "i < length messages")
    case True
    then have s: "0 < segmentSize messages" by (rule segmentSize_pos)
    let ?s = "segmentSize messages" and ?d = "length messages - i"
    have d: "0 < ?d" using True by simp
    have IH: "length (segmentsFrom messages (i + ?s)) =
       (if i + ?s < length messages then (length messages - (i + ?s) + ?s - 1) div ?s else 0)"
      using 1 True by simp
    have "length (segmentsFrom messages (i + ?s)) = (?d - ?s + ?s - 1) div ?s"
    proof (cases "i + ?s < length messages")
      case True
      then show ?thesis using IH by (simp add: diff_diff_left)
    next
      case False
      then have "?d - ?s = 0" by simp
      then show ?thesis using IH False s by simp
    qed
    then show ?thesis
      using True div_ceil_step[OF s d] by (subst segmentsFrom.simps) simp
  next
    case False
    then show ?thesis by (subst segmentsFrom.simps) simp
  qed
qed

lemma nth_segmentsFrom:
  "j < length (segmentsFrom messages i) \<Longrightarrow>
   segmentsFrom messages i ! j =
     take (segmentSize messages) (drop (i + j * segmentSize messages) messages)"
proof (induction messages i arbitrary: j rule: segmentsFrom.induct)
  case (1 messages i)
  show ?case
  proof (cases "i < length messages")
    case True
    show ?thesis
    proof (cases j)
      case 0
      then show ?thesis using True by (subst segmentsFrom.simps) (simp add: slice_def)
    next
      case (Suc j')
      then have "j' < length (segmentsFrom messages (i + segmentSize messages))"
        using "1.prems" True by (subst (asm) segmentsFrom.simps) simp
      from "1.IH"[OF True this] show ?thesis
        using True Suc by (subst segmentsFrom.simps) (simp add: add.assoc)
    qed
  next
    case False
    then show ?thesis using "1.prems" by (subst (asm) segmentsFrom.simps) simp
  qed
qed

lemma ceil3_facts:
  fixes n :: nat
  defines "s \<equiv> (n + 2) div 3"
  shows "n \<le> 3 * s" and "3 * s \<le> n + 2" and "2 * s < n \<longleftrightarrow> n = 3 \<or> 5 \<le> n"
proof -
  define q where "q = (n + 2) mod 3"
  have m: "n + 2 = 3 * s + q" unfolding s_def q_def by simp
  have r: "q < 3" unfolding q_def by simp
  show "n \<le> 3 * s" using m r by linarith
  show "3 * s \<le> n + 2" using m by linarith
  from r consider "q = 0" | "q = 1" | "q = 2" by linarith
  then show "2 * s < n \<longleftrightarrow> n = 3 \<or> 5 \<le> n"
  proof cases
    case 1 then show ?thesis using m by arith
  next
    case 2 then show ?thesis using m by arith
  next
    case 3 then show ?thesis using m by arith
  qed
qed

lemma segment_count:
  fixes n s :: nat
  assumes n: "0 < n" and s: "0 < s" "n \<le> 3 * s"
  shows "1 \<le> (n + s - 1) div s" and "(n + s - 1) div s \<le> 3"
    and "(n + s - 1) div s = 3 \<longleftrightarrow> 2 * s < n"
proof -
  have "s \<le> n + s - 1" using n by arith
  then have "s div s \<le> (n + s - 1) div s" by (rule div_le_mono)
  then show "1 \<le> (n + s - 1) div s" using s(1) by simp
  have "n + s - 1 < 4 * s" using s by arith
  then have "(n + s - 1) div s < 4" using s(1) by (simp add: div_less_iff_less_mult mult.commute)
  then show "(n + s - 1) div s \<le> 3" by simp
  show "(n + s - 1) div s = 3 \<longleftrightarrow> 2 * s < n"
  proof
    assume "(n + s - 1) div s = 3"
    moreover have "s * ((n + s - 1) div s) \<le> n + s - 1" by (rule times_div_less_eq_dividend)
    ultimately have "s * 3 \<le> n + s - 1" by simp
    then show "2 * s < n" using s(1) by arith
  next
    assume a: "2 * s < n"
    show "(n + s - 1) div s = 3"
    proof (rule div_nat_eqI)
      show "s * 3 \<le> n + s - 1" using a by arith
      show "n + s - 1 < s * Suc 3" using s by arith
    qed
  qed
qed

lemma analyzeEngagement_eq:
  "analyzeEngagement e messages w =
     (Inr (case generateContent_result e (length (prompts w)) (engagementPrompt messages) of
             Inl err \<Rightarrow> [Num 0, Num 0, Num 0, Num 0, Num 0]
           | Inr response \<Rightarrow> engagementRatings response),
      w\<lparr>prompts := prompts w @ [engagementPrompt messages]\<rparr>)"
  by (simp add: analyzeEngagement_def tryCatch_generate)

lemma promiseAll_engagement:
  "promiseAll (map (\<lambda>segment. analyzeEngagement e segment) segments) w =
     (Inr (engagementOutcomes e (length (prompts w)) segments),
      w\<lparr>prompts := prompts w @ map engagementPrompt segments\<rparr>)"
proof (induction segments arbitrary: w)
  case Nil
  show ?case by simp
next
  case (Cons segment segments)
  show ?case
    by (simp only: list.map promiseAll.simps both_def Cons) (simp add: analyzeEngagement_eq)
qed

lemma calculateEngagementTrend_eq:
  "calculateEngagementTrend e messages w =
     (Inr (averageEngagementLevels
             (engagementOutcomes e (length (prompts w)) (splitMessagesIntoSegments messages))),
      w\<lparr>prompts := prompts w @ map engagementPrompt (splitMessagesIntoSegments messages)\<rparr>)"
  by (simp add: calculateEngagementTrend_def Let_def tryCatch_def andThen_def succeed_def
        promiseAll_engagement)

lemma length_engagementOutcomes [simp]:
  "length (engagementOutcomes e k segments) = length segments"
  by (induction segments arbitrary: k) simp_all

lemma summed_levels:
  "foldl (\<lambda>acc curr. map (\<lambda>(val, idx). val + orZero (elemAt curr idx)) (zip acc [0..<length acc]))
     acc engagementResults
   = map (\<lambda>d. acc ! d + sum_list (map (\<lambda>r. orZero (elemAt r d)) engagementResults))
       [0..<length acc]"
proof (induction engagementResults arbitrary: acc)
  case Nil
  show ?case by (simp add: map_nth)
next
  case (Cons curr rest)
  let ?step = "map (\<lambda>(val, idx). val + orZero (elemAt curr idx)) (zip acc [0..<length acc])"
  have len: "length ?step = length acc" by simp
  have nth: "\<And>d. d < length acc \<Longrightarrow> ?step ! d = acc ! d + orZero (elemAt curr d)"
    by simp
  show ?case
    unfolding foldl_Cons Cons.IH len
    by (rule map_cong) (simp_all add: nth)
qed

lemma averageEngagementLevels_eq:
  "engagementResults \<noteq> [] \<Longrightarrow>
   averageEngagementLevels engagementResults =
     map (\<lambda>d. Num (roundDiv (sum_list (map (\<lambda>r. orZero (elemAt r d)) engagementResults))
                     (length engagementResults)))
       [0..<5]"
proof -
  assume "engagementResults \<noteq> []"
  then have n: "length engagementResults \<noteq> 0" by simp
  have u: "[0..<5] = [0, 1, 2, 3, 4]" by (simp add: upt_rec)
  have l: "length [0, 0, 0, 0, 0 :: int] = 5" by simp
  show ?thesis
    unfolding averageEngagementLevels_def summed_levels Let_def l u
    using n by simp
qed

lemma roundDiv_nearest:
  "0 < n \<Longrightarrow> 2 * summed - int n < 2 * int n * roundDiv summed n
            \<and> 2 * int n * roundDiv summed n \<le> 2 * summed + int n"
proof -
  assume n: "0 < n"
  let ?a = "2 * summed + int n" and ?b = "2 * int n"
  have b: "0 < ?b" using n by simp
  have "?a = ?b * (?a div ?b) + ?a mod ?b" by simp
  moreover have "0 \<le> ?a mod ?b" "?a mod ?b < ?b" using b by simp_all
  ultimately have "?b * (?a div ?b) \<le> ?a" "?a - ?b < ?b * (?a div ?b)" by linarith+
  then show ?thesis by (simp add: roundDiv_def)
qed


lemma engagementOutcomes_Nil [simp]:
  "engagementOutcomes e k segments = [] \<longleftrightarrow> segments = []"
  by (cases segments) simp_all

lemma nth_engagementOutcomes:
  "j < length segments \<Longrightarrow>
   engagementOutcomes e k segments ! j =
     (case generateContent_result e (k + j) (engagementPrompt (segments ! j)) of
        Inl err \<Rightarrow> [Num 0, Num 0, Num 0, Num 0, Num 0]
      | Inr response \<Rightarrow> engagementRatings response)"
proof (induction segments arbitrary: k j)
  case Nil
  then show ?case by simp
next
  case (Cons segment segments)
  then show ?case by (cases j) simp_all
qed

text \<open>
  What the code computes.  A non-empty list of \<open>n\<close> messages is cut into contiguous chunks
  of size \<open>ceil (n / 3)\<close>, the last one possibly shorter: \<open>ceil (n / size)\<close> chunks, which
  is at least one and at most three, and three exactly when \<open>n = 3\<close> or \<open>n \<ge> 5\<close>.  The
  engagement analysis is invoked once per chunk, in order (one model call per chunk), and
  the result is the average of the chunk results in each of the five dimensions, rounded to
  the nearest integer.
\<close>

lemma calculateEngagementTrend_chunks:
  assumes "messages \<noteq> []"
  shows
    "(let segments = splitMessagesIntoSegments messages;
          size = segmentSize messages;
          outcomes = engagementOutcomes e (length (prompts w)) segments
      in length messages \<le> 3 * size \<and> 3 * size \<le> length messages + 2
         \<and> concat segments = messages
         \<and> length segments = (length messages + size - 1) div size
         \<and> 1 \<le> length segments \<and> length segments \<le> 3
         \<and> (length segments = 3 \<longleftrightarrow> length messages = 3 \<or> 5 \<le> length messages)
         \<and> (\<forall>j<length segments. segments ! j = take size (drop (j * size) messages))
         \<and> calculateEngagementTrend e messages w =
             (Inr (averageEngagementLevels outcomes),
              w\<lparr>prompts := prompts w @ map engagementPrompt segments\<rparr>)
         \<and> length outcomes = length segments
         \<and> (\<forall>j<length segments.
               Inr (outcomes ! j) =
                 fst (analyzeEngagement e (segments ! j)
                        (w\<lparr>prompts := prompts w @ map engagementPrompt (take j segments)\<rparr>)))
         \<and> averageEngagementLevels outcomes =
             map (\<lambda>d. Num (roundDiv (sum_list (map (\<lambda>r. orZero (elemAt r d)) outcomes))
                           (length outcomes)))
               [0..<5]
         \<and> (\<forall>summed. 2 * summed - int (length outcomes)
                        < 2 * int (length outcomes) * roundDiv summed (length outcomes)
                      \<and> 2 * int (length outcomes) * roundDiv summed (length outcomes)
                        \<le> 2 * summed + int (length outcomes)))"
proof -
  let ?segments = "splitMessagesIntoSegments messages"
  let ?size = "segmentSize messages"
  let ?outcomes = "engagementOutcomes e (length (prompts w)) ?segments"
  let ?n = "length messages"
  have n: "0 < ?n" using assms by simp
  have s1: "?n \<le> 3 * ?size" and s2: "3 * ?size \<le> ?n + 2"
    unfolding segmentSize_def by (rule ceil3_facts)+
  have s0: "0 < ?size" using n s1 by arith
  have len: "length ?segments = (?n + ?size - 1) div ?size"
    using n by (simp add: splitMessagesIntoSegments_def length_segmentsFrom)
  have c: "concat ?segments = messages"
    by (simp add: splitMessagesIntoSegments_def concat_segmentsFrom)
  have b1: "1 \<le> length ?segments" and b3: "length ?segments \<le> 3"
    unfolding len using segment_count[OF n s0 s1] by simp_all
  have "length ?segments = 3 \<longleftrightarrow> 2 * ?size < ?n"
    unfolding len by (rule segment_count[OF n s0 s1])
  also have "\<dots> \<longleftrightarrow> ?n = 3 \<or> 5 \<le> ?n"
    unfolding segmentSize_def by (rule ceil3_facts)
  finally have three: "length ?segments = 3 \<longleftrightarrow> ?n = 3 \<or> 5 \<le> ?n" .
  have nth: "\<forall>j<length ?segments. ?segments ! j = take ?size (drop (j * ?size) messages)"
    using nth_segmentsFrom[of _ messages 0] by (simp add: splitMessagesIntoSegments_def)
  have lo: "0 < length ?outcomes" using b1 by auto
  then have ne: "?outcomes \<noteq> []" by simp
  have each: "\<forall>j<length ?segments.
               Inr (?outcomes ! j) =
                 fst (analyzeEngagement e (?segments ! j)
                        (w\<lparr>prompts := prompts w @ map engagementPrompt (take j ?segments)\<rparr>))"
    by (simp add: nth_engagementOutcomes analyzeEngagement_eq)
  have round: "\<forall>summed. 2 * summed - int (length ?outcomes)
                        < 2 * int (length ?outcomes) * roundDiv summed (length ?outcomes)
                      \<and> 2 * int (length ?outcomes) * roundDiv summed (length ?outcomes)
                        \<le> 2 * summed + int (length ?outcomes)"
    using roundDiv_nearest[OF lo] by blast
  have lenout: "length ?outcomes = length ?segments" by simp
  show ?thesis
    unfolding Let_def
    using s1 s2 c len b1 b3 three nth calculateEngagementTrend_eq[of e messages w] lenout each
      averageEngagementLevels_eq[OF ne] round
    by (intro conjI)
qed

text \<open>
  Nine messages: three chunks of three, three invocations, and chunk results 80, 60 and 70
  in a dimension average to 70.
\<close>

lemma calculateEngagementTrend_nine_messages:
  "map userSays [''m1'', ''m2'', ''m3'', ''m4'', ''m5'', ''m6'', ''m7'', ''m8'', ''m9''] \<noteq> []
   \<and> map length (splitMessagesIntoSegments
         (map userSays [''m1'', ''m2'', ''m3'', ''m4'', ''m5'', ''m6'', ''m7'', ''m8'', ''m9''])) = [3, 3, 3]
   \<and> fst (calculateEngagementTrend
        \<lparr>generateContent_result =
           (\<lambda>k p. Inr (if k = 0 then ''80,80,80,80,80''
                       else if k = 1 then ''60,60,60,60,60'' else ''70,70,70,70,70'')),
         getItem_result = (\<lambda>k. None), setItem_result = (\<lambda>k. None), now = []\<rparr>
        (map userSays [''m1'', ''m2'', ''m3'', ''m4'', ''m5'', ''m6'', ''m7'', ''m8'', ''m9''])
        freshWorld)
     = Inr [Num 70, Num 70, Num 70, Num 70, Num 70]
   \<and> length (prompts (snd (calculateEngagementTrend
        \<lparr>generateContent_result =
           (\<lambda>k p. Inr (if k = 0 then ''80,80,80,80,80''
                       else if k = 1 then ''60,60,60,60,60'' else ''70,70,70,70,70'')),
         getItem_result = (\<lambda>k. None), setItem_result = (\<lambda>k. None), now = []\<rparr>
        (map userSays [''m1'', ''m2'', ''m3'', ''m4'', ''m5'', ''m6'', ''m7'', ''m8'', ''m9''])
        freshWorld))) = 3"
proof -
  define ms where "ms = map userSays [''m1'', ''m2'', ''m3'', ''m4'', ''m5'', ''m6'', ''m7'', ''m8'', ''m9'']"
  define e where "e = \<lparr>generateContent_result =
           (\<lambda>k p. Inr (if k = 0 then ''80,80,80,80,80''
                       else if k = 1 then ''60,60,60,60,60'' else ''70,70,70,70,70'')),
         getItem_result = (\<lambda>k. None), setItem_result = (\<lambda>k. None), now = []\<rparr>"
  have ne: "ms \<noteq> []" by (simp add: ms_def)
  have segs: "splitMessagesIntoSegments ms =
      [map userSays [''m1'', ''m2'', ''m3''], map userSays [''m4'', ''m5'', ''m6''],
       map userSays [''m7'', ''m8'', ''m9'']]"
    unfolding ms_def by code_simp
  have r80: "engagementRatings ''80,80,80,80,80'' = [Num 80, Num 80, Num 80, Num 80, Num 80]"
    by code_simp
  have r60: "engagementRatings ''60,60,60,60,60'' = [Num 60, Num 60, Num 60, Num 60, Num 60]"
    by code_simp
  have r70: "engagementRatings ''70,70,70,70,70'' = [Num 70, Num 70, Num 70, Num 70, Num 70]"
    by code_simp
  have out: "engagementOutcomes e (length (prompts freshWorld)) (splitMessagesIntoSegments ms)
      = [[Num 80, Num 80, Num 80, Num 80, Num 80], [Num 60, Num 60, Num 60, Num 60, Num 60],
         [Num 70, Num 70, Num 70, Num 70, Num 70]]"
    unfolding segs by (simp add: e_def freshWorld_def r80 r60 r70)
  have avg: "averageEngagementLevels
       [[Num 80, Num 80, Num 80, Num 80, Num 80], [Num 60, Num 60, Num 60, Num 60, Num 60],
        [Num 70, Num 70, Num 70, Num 70, Num 70]]
      = [Num 70, Num 70, Num 70, Num 70, Num 70]"
    by code_simp
  from calculateEngagementTrend_chunks[OF ne, of e freshWorld]
  have "calculateEngagementTrend e ms freshWorld =
          (Inr (averageEngagementLevels
                  (engagementOutcomes e (length (prompts freshWorld)) (splitMessagesIntoSegments ms))),
           freshWorld\<lparr>prompts := prompts freshWorld
                         @ map engagementPrompt (splitMessagesIntoSegments ms)\<rparr>)"
    unfolding Let_def by blast
  then have "fst (calculateEngagementTrend e ms freshWorld) = Inr [Num 70, Num 70, Num 70, Num 70, Num 70]"
    and "length (prompts (snd (calculateEngagementTrend e ms freshWorld))) = 3"
    unfolding out avg by (simp_all add: segs freshWorld_def)
  moreover have "map length (splitMessagesIntoSegments ms) = [3, 3, 3]"
    unfolding segs by simp
  ultimately show ?thesis using ne unfolding ms_def e_def by (intro conjI)
qed

text \<open>
  C2. The trend is to be computed over exactly three chunks, with three invocations of the
  engagement analysis, and the source says so itself where it computes the chunk size
  (\<^verbatim>\<open>// Split into 3 segments\<close>).  Four messages can be cut into three non-empty
  chunks, but the code cuts them into two chunks of two messages and invokes the engagement
  analysis twice.
\<close>

theorem calculateEngagementTrend_four_messages:
  "splitMessagesIntoSegments (map userSays [''m1'', ''m2'', ''m3'', ''m4''])
     = [map userSays [''m1'', ''m2''], map userSays [''m3'', ''m4'']]
   \<and> length (splitMessagesIntoSegments (map userSays [''m1'', ''m2'', ''m3'', ''m4''])) = 2
   \<and> length (prompts (snd (calculateEngagementTrend (steadyEnv ''85,70,65,75,80'')
                             (map userSays [''m1'', ''m2'', ''m3'', ''m4'']) freshWorld))) = 2"
proof -
  have segs: "splitMessagesIntoSegments (map userSays [''m1'', ''m2'', ''m3'', ''m4''])
      = [map userSays [''m1'', ''m2''], map userSays [''m3'', ''m4'']]"
    by code_simp
  show ?thesis
    unfolding calculateEngagementTrend_eq segs by (simp add: freshWorld_def)
qed

subsection \<open>The analysis operations never fail\<close>

lemma analyzeEmotions_eq:
  "analyzeEmotions e messages w =
     (Inr (case generateContent_result e (length (prompts w)) (emotionPrompt messages) of
             Inl err \<Rightarrow> \<lparr>EmotionalAnalysis.emotions = [], EmotionalAnalysis.dominantEmotions = []\<rparr>
           | Inr response \<Rightarrow>
               \<lparr>EmotionalAnalysis.emotions = emotionsFromResponse response,
                EmotionalAnalysis.dominantEmotions = dominantEmotionsFromResponse response\<rparr>),
      w\<lparr>prompts := prompts w @ [emotionPrompt messages]\<rparr>)"
  by (simp add: analyzeEmotions_def tryCatch_generate)

lemma analyzeSessionSummary_eq:
  "analyzeSessionSummary e messages w =
     (Inr (case generateContent_result e (length (prompts w)) (summaryPrompt messages) of
             Inl err \<Rightarrow> [] | Inr summary \<Rightarrow> trim summary),
      w\<lparr>prompts := prompts w @ [summaryPrompt messages]\<rparr>)"
  by (simp add: analyzeSessionSummary_def tryCatch_generate)

lemma analyzeGoals_eq:
  "analyzeGoals e messages w =
     (Inr (case generateContent_result e (length (prompts w)) (goalsPrompt messages) of
             Inl err \<Rightarrow> [] | Inr response \<Rightarrow> goalsFromResponse response),
      w\<lparr>prompts := prompts w @ [goalsPrompt messages]\<rparr>)"
  by (simp add: analyzeGoals_def tryCatch_generate)

lemma analyzeImprovements_eq:
  "analyzeImprovements e messages w =
     (Inr (case generateContent_result e (length (prompts w)) (improvementsPrompt messages) of
             Inl err \<Rightarrow> \<lparr>strengths = [], challenges = [], recommendations = []\<rparr>
           | Inr response \<Rightarrow> improvementsFromResponse response),
      w\<lparr>prompts := prompts w @ [improvementsPrompt messages]\<rparr>)"
  by (simp add: analyzeImprovements_def tryCatch_generate)

lemma analyzeSession_eq:
  "analyzeSession e conversation w =
     (Inr (case generateContent_result e (length (prompts w)) (sessionPrompt conversation) of
             Inl err \<Rightarrow> \<lparr>emotionalState = ''Unable to analyze'',
                          keyTopics = Some [], insights = Some []\<rparr>
           | Inr text' \<Rightarrow> parseAnalysisResponse text'),
      w\<lparr>prompts := prompts w @ [sessionPrompt conversation]\<rparr>)"
  by (simp add: analyzeSession_def tryCatch_generate)

text \<open>
  C9. Each of the five analysis operations (emotions, engagement, summary, goals,
  improvements) returns a value in every state and for every outcome of its model call:
  what its parser makes of the response text, and its typed empty default (empty lists, the
  empty string, five zeros) when the call fails.  None of them ever returns a failure.
\<close>

theorem analysis_operations_never_raise:
  "analyzeEmotions e messages w =
     (Inr (case generateContent_result e (length (prompts w)) (emotionPrompt messages) of
             Inl err \<Rightarrow> \<lparr>EmotionalAnalysis.emotions = [], EmotionalAnalysis.dominantEmotions = []\<rparr>
           | Inr response \<Rightarrow>
               \<lparr>EmotionalAnalysis.emotions = emotionsFromResponse response,
                EmotionalAnalysis.dominantEmotions = dominantEmotionsFromResponse response\<rparr>),
      w\<lparr>prompts := prompts w @ [emotionPrompt messages]\<rparr>)
   \<and> analyzeEngagement e messages w =
     (Inr (case generateContent_result e (length (prompts w)) (engagementPrompt messages) of
             Inl err \<Rightarrow> [Num 0, Num 0, Num 0, Num 0, Num 0]
           | Inr response \<Rightarrow> engagementRatings response),
      w\<lparr>prompts := prompts w @ [engagementPrompt messages]\<rparr>)
   \<and> analyzeSessionSummary e messages w =
     (Inr (case generateContent_result e (length (prompts w)) (summaryPrompt messages) of
             Inl err \<Rightarrow> [] | Inr summary \<Rightarrow> trim summary),
      w\<lparr>prompts := prompts w @ [summaryPrompt messages]\<rparr>)
   \<and> analyzeGoals e messages w =
     (Inr (case generateContent_result e (length (prompts w)) (goalsPrompt messages) of
             Inl err \<Rightarrow> [] | Inr response \<Rightarrow> goalsFromResponse response),
      w\<lparr>prompts := prompts w @ [goalsPrompt messages]\<rparr>)
   \<and> analyzeImprovements e messages w =
     (Inr (case generateContent_result e (length (prompts w)) (improvementsPrompt messages) of
             Inl err \<Rightarrow> \<lparr>strengths = [], challenges = [], recommendations = []\<rparr>
           | Inr response \<Rightarrow> improvementsFromResponse response),
      w\<lparr>prompts := prompts w @ [improvementsPrompt messages]\<rparr>)"
  by (intro conjI analyzeEmotions_eq analyzeEngagement_eq analyzeSessionSummary_eq
        analyzeGoals_eq analyzeImprovements_eq)

subsection \<open>endSession and trackProgressWithEmotions\<close>

text \<open>
  C7. Called with an empty message list or with a value that is no list,
  \<^verbatim>\<open>endSession\<close> and \<^verbatim>\<open>trackProgressWithEmotions\<close> fail with their validation error
  and leave the state as it was: no prompt has been sent to the model, and the store has
  been neither read nor written.
\<close>

theorem empty_messages_rejected:
  "endSession e (MessageArray []) w = (Inl (Error ''No messages provided for session analysis''), w)
   \<and> endSession e NotAnArray w = (Inl (Error ''No messages provided for session analysis''), w)
   \<and> trackProgressWithEmotions e (MessageArray []) w
       = (Inl (Error ''No messages provided for progress tracking''), w)
   \<and> trackProgressWithEmotions e NotAnArray w
       = (Inl (Error ''No messages provided for progress tracking''), w)"
  by (simp add: endSession_def trackProgressWithEmotions_def tryCatch_def throw_def)


lemma retryOperation_total:
  "(\<And>v. \<not> isl (fst (operation v))) \<Longrightarrow> retryOperation operation retries w = operation w"
proof -
  assume a: "\<And>v. \<not> isl (fst (operation v))"
  obtain r w' where o: "operation w = (r, w')" by (cases "operation w")
  with a[of w] obtain v where "r = Inr v" by (cases r) auto
  with o show ?thesis by (simp add: retryOperation_success)
qed

lemma retry_analyses [simp]:
  "retryOperation (analyzeEmotions e ms) n w = analyzeEmotions e ms w"
  "retryOperation (analyzeEngagement e ms) n w = analyzeEngagement e ms w"
  "retryOperation (analyzeSessionSummary e ms) n w = analyzeSessionSummary e ms w"
  "retryOperation (analyzeGoals e ms) n w = analyzeGoals e ms w"
  "retryOperation (analyzeImprovements e ms) n w = analyzeImprovements e ms w"
  by (rule retryOperation_total,
      simp add: analyzeEmotions_eq analyzeEngagement_eq analyzeSessionSummary_eq
        analyzeGoals_eq analyzeImprovements_eq)+

lemma saveProgress_Inr:
  assumes "saveProgress e d w = (Inr u, w')"
  shows "storage w' = Some (JsonArray (map Conforming (sliceFrom (- 50)
           ((if getItem_result e (getItems w) = None then validHistory (storage w) else [])
            @ [d]))))"
    and "getItems w' = Suc (getItems w)" and "setItems w < setItems w'"
    and "prompts w' = prompts w"
proof -
  let ?p = "JsonArray (map Conforming (sliceFrom (- 50)
           ((if getItem_result e (getItems w) = None then validHistory (storage w) else [])
            @ [d])))"
  from assms obtain r0 where
    r0: "retryOperation (setItem e ?p) MAX_RETRIES (w\<lparr>getItems := Suc (getItems w)\<rparr>) = (r0, w')"
    and "r0 = Inr u"
    unfolding saveProgress_eq by (auto split: prod.splits sum.splits)
  with retry_setItem[OF r0]
  show "storage w' = Some ?p" "getItems w' = Suc (getItems w)" "setItems w < setItems w'"
    "prompts w' = prompts w"
    by simp_all
qed

lemma both_Inr:
  "m1 w = (Inr a, w1) \<Longrightarrow> m2 w1 = (Inr b, w2) \<Longrightarrow> both m1 m2 w = (Inr (a, b), w2)"
  by (simp add: both_def)

lemma trackProgressWithEmotions_Inr:
  assumes "trackProgressWithEmotions e (MessageArray ms) w = (Inr pre, w')"
  shows "\<exists>w5. storage w5 = storage w \<and> getItems w5 = getItems w \<and> setItems w5 = setItems w
              \<and> saveProgress e pre w5 = (Inr (), w')"
proof (cases "length ms = 0")
  case True
  then show ?thesis
    using assms by (simp add: trackProgressWithEmotions_def tryCatch_def throw_def)
next
  case False
  let ?w1 = "w\<lparr>prompts := prompts w @ [emotionPrompt ms]\<rparr>"
  let ?w2 = "?w1\<lparr>prompts := prompts ?w1 @ [engagementPrompt ms]\<rparr>"
  let ?w3 = "?w2\<lparr>prompts := prompts ?w2 @ [summaryPrompt ms]\<rparr>"
  let ?w4 = "?w3\<lparr>prompts := prompts ?w3 @ [goalsPrompt ms]\<rparr>"
  let ?w5 = "?w4\<lparr>prompts := prompts ?w4 @ [improvementsPrompt ms]\<rparr>"
  obtain a where a: "retryOperation (analyzeEmotions e ms) MAX_RETRIES w = (Inr a, ?w1)"
    unfolding retry_analyses using analyzeEmotions_eq[of e ms w] by blast
  obtain b where b: "retryOperation (analyzeEngagement e ms) MAX_RETRIES ?w1 = (Inr b, ?w2)"
    unfolding retry_analyses using analyzeEngagement_eq[of e ms ?w1] by blast
  obtain c where c: "retryOperation (analyzeSessionSummary e ms) MAX_RETRIES ?w2 = (Inr c, ?w3)"
    unfolding retry_analyses using analyzeSessionSummary_eq[of e ms ?w2] by blast
  obtain d where d: "retryOperation (analyzeGoals e ms) MAX_RETRIES ?w3 = (Inr d, ?w4)"
    unfolding retry_analyses using analyzeGoals_eq[of e ms ?w3] by blast
  obtain f where f: "retryOperation (analyzeImprovements e ms) MAX_RETRIES ?w4 = (Inr f, ?w5)"
    unfolding retry_analyses using analyzeImprovements_eq[of e ms ?w4] by blast
  have df: "both (retryOperation (analyzeGoals e ms) MAX_RETRIES)
                 (retryOperation (analyzeImprovements e ms) MAX_RETRIES) ?w3
            = (Inr (d, f), ?w5)"
    using d f by (rule both_Inr)
  have cdf: "both (retryOperation (analyzeSessionSummary e ms) MAX_RETRIES)
                (both (retryOperation (analyzeGoals e ms) MAX_RETRIES)
                      (retryOperation (analyzeImprovements e ms) MAX_RETRIES)) ?w2
            = (Inr (c, d, f), ?w5)"
    using c df by (rule both_Inr)
  have bcdf: "both (retryOperation (analyzeEngagement e ms) MAX_RETRIES)
                (both (retryOperation (analyzeSessionSummary e ms) MAX_RETRIES)
                (both (retryOperation (analyzeGoals e ms) MAX_RETRIES)
                      (retryOperation (analyzeImprovements e ms) MAX_RETRIES))) ?w1
            = (Inr (b, c, d, f), ?w5)"
    using b cdf by (rule both_Inr)
  have five: "both (retryOperation (analyzeEmotions e ms) MAX_RETRIES)
                (both (retryOperation (analyzeEngagement e ms) MAX_RETRIES)
                (both (retryOperation (analyzeSessionSummary e ms) MAX_RETRIES)
                (both (retryOperation (analyzeGoals e ms) MAX_RETRIES)
                      (retryOperation (analyzeImprovements e ms) MAX_RETRIES)))) w
              = (Inr (a, b, c, d, f), ?w5)"
    using a bcdf by (rule both_Inr)
  from assms False five
  have "(case saveProgress e pre ?w5 of (Inl err, v) \<Rightarrow> (Inl err, v)
         | (Inr u, v) \<Rightarrow> (Inr pre, v)) = (Inr pre, w')"
    unfolding trackProgressWithEmotions_def
    by (simp add: tryCatch_def andThen_def throw_def lift_def succeed_def Let_def
          split: prod.splits sum.splits)
  then have "saveProgress e pre ?w5 = (Inr (), w')"
    by (auto split: prod.splits sum.splits)
  then show ?thesis by (intro exI[of _ ?w5]) simp
qed


lemma tryCatch_rethrow: "tryCatch m (\<lambda>error. throw error) = m"
  by (rule ext) (simp add: tryCatch_def throw_def split: prod.splits sum.splits)

lemma andThen_InrE:
  assumes "andThen m f w = (Inr v, w')"
  obtains x w1 where "m w = (Inr x, w1)" and "f x w1 = (Inr v, w')"
  using assms by (auto simp: andThen_def split: prod.splits sum.splits)

lemma getLatestProgress_eq:
  "getLatestProgress e w =
     (Inr (let history = (if getItem_result e (getItems w) = None
                          then validHistory (storage w) else [])
           in if history = [] then None else Some (last history)),
      w\<lparr>getItems := Suc (getItems w)\<rparr>)"
  by (simp add: getLatestProgress_def andThen_def getProgressHistory_eq succeed_def Let_def
        last_conv_nth)

lemma endSession_steps:
  assumes "endSession e (MessageArray ms) w = (Inr final, w')"
  obtains latest wa pre w1 trend wb analysis wc where
    "getLatestProgress e w = (Inr latest, wa)"
    "trackProgressWithEmotions e (MessageArray ms) wa = (Inr pre, w1)"
    "calculateEngagementTrend e ms w1 = (Inr trend, wb)"
    "analyzeSession e (map msg_text ms) wb = (Inr analysis, wc)"
    "saveProgress e final wc = (Inr (), w')"
    "goals final = (case latest of Some l \<Rightarrow> mergeGoals (goals l) (goals pre) | None \<Rightarrow> goals pre)"
proof -
  have ne: "length ms \<noteq> 0"
    using assms by (auto simp: endSession_def tryCatch_def throw_def)
  from assms ne show ?thesis
    unfolding endSession_def tryCatch_rethrow
    by (auto simp: Let_def lift_def succeed_def elim!: andThen_InrE intro!: that
          split: option.splits sum.splits if_splits)
qed


lemma sliceFrom_twice:
  "sliceFrom (- 50) (sliceFrom (- 50) (xs @ [a]) @ [b]) = sliceFrom (- 50) (xs @ [a, b])"
proof (cases "length xs < 50")
  case True
  then show ?thesis by (simp add: sliceFrom_last50)
next
  case False
  then have "Suc (length xs) - 50 = length xs - 49" "length xs - 48 = Suc (length xs - 49)"
    by arith+
  then show ?thesis using False by (simp add: sliceFrom_last50 drop_Suc tl_drop)
qed

text \<open>
  C10. A successful \<^verbatim>\<open>endSession\<close> writes the store twice.  The aggregator, called
  after the latest record was read, saves the record \<open>pre\<close> that it returns, behind the
  history it reads; \<^verbatim>\<open>endSession\<close> then saves the final record behind the history it
  reads in turn.  At least two \<^verbatim>\<open>setItem\<close> calls are made.  When no
  \<^verbatim>\<open>getItem\<close> fails, the stored history ends up as the last 50 entries of the
  initial history followed by \<open>pre\<close> and the final record: two entries more, when the
  initial history has at most 48.  The goals of the final record are those of \<open>pre\<close>,
  merged with the goals of the latest record when there is one.
\<close>

theorem endSession_saves_twice:
  assumes "endSession e (MessageArray ms) w = (Inr final, w')"
  shows "\<exists>pre w1.
     trackProgressWithEmotions e (MessageArray ms) (w\<lparr>getItems := Suc (getItems w)\<rparr>)
       = (Inr pre, w1)
     \<and> (let H1 = (if getItem_result e (Suc (getItems w)) = None
                   then validHistory (storage w) else []);
             H2 = (if getItem_result e (Suc (Suc (getItems w))) = None
                   then sliceFrom (- 50) (H1 @ [pre]) else [])
         in storage w1 = Some (JsonArray (map Conforming (sliceFrom (- 50) (H1 @ [pre]))))
          \<and> storage w' = Some (JsonArray (map Conforming (sliceFrom (- 50) (H2 @ [final])))))
     \<and> setItems w + 2 \<le> setItems w'
     \<and> goals final =
          (case fst (getLatestProgress e w) of
             Inr (Some latest) \<Rightarrow> mergeGoals (goals latest) (goals pre)
           | _ \<Rightarrow> goals pre)
     \<and> ((\<forall>k. getItem_result e k = None) \<longrightarrow>
          validHistory (storage w') = sliceFrom (- 50) (validHistory (storage w) @ [pre, final])
          \<and> (length (validHistory (storage w)) \<le> 48 \<longrightarrow>
               validHistory (storage w') = validHistory (storage w) @ [pre, final]))"
proof -
  from assms obtain latest wa pre w1 trend wb analysis wc where
    l: "getLatestProgress e w = (Inr latest, wa)"
    and t: "trackProgressWithEmotions e (MessageArray ms) wa = (Inr pre, w1)"
    and c: "calculateEngagementTrend e ms w1 = (Inr trend, wb)"
    and a: "analyzeSession e (map msg_text ms) wb = (Inr analysis, wc)"
    and s: "saveProgress e final wc = (Inr (), w')"
    and g: "goals final =
              (case latest of Some l \<Rightarrow> mergeGoals (goals l) (goals pre) | None \<Rightarrow> goals pre)"
    by (rule endSession_steps)
  let ?H1 = "if getItem_result e (Suc (getItems w)) = None then validHistory (storage w) else []"
  let ?H2 = "if getItem_result e (Suc (Suc (getItems w))) = None
             then sliceFrom (- 50) (?H1 @ [pre]) else []"
  have wa: "wa = w\<lparr>getItems := Suc (getItems w)\<rparr>"
    using l by (simp add: getLatestProgress_eq)
  from trackProgressWithEmotions_Inr[OF t] obtain w5 where
    w5: "storage w5 = storage wa" "getItems w5 = getItems wa" "setItems w5 = setItems wa"
    and s1: "saveProgress e pre w5 = (Inr (), w1)"
    by blast
  have st1: "storage w1 = Some (JsonArray (map Conforming (sliceFrom (- 50) (?H1 @ [pre]))))"
    using saveProgress_Inr(1)[OF s1] w5 wa by simp
  have g1: "getItems w1 = Suc (Suc (getItems w))"
    using saveProgress_Inr(2)[OF s1] w5 wa by simp
  have n1: "setItems w < setItems w1"
    using saveProgress_Inr(3)[OF s1] w5 wa by simp
  have wc: "storage wc = storage w1" "getItems wc = getItems w1" "setItems wc = setItems w1"
    using c a by (auto simp: calculateEngagementTrend_eq analyzeSession_eq)
  have st2: "storage w' = Some (JsonArray (map Conforming (sliceFrom (- 50) (?H2 @ [final]))))"
    using saveProgress_Inr(1)[OF s] wc st1 g1 by simp
  have n2: "setItems w + 2 \<le> setItems w'"
    using saveProgress_Inr(3)[OF s] wc n1 by simp
  have gl: "goals final =
          (case fst (getLatestProgress e w) of
             Inr (Some latest) \<Rightarrow> mergeGoals (goals latest) (goals pre)
           | _ \<Rightarrow> goals pre)"
    using g l by (simp split: option.splits)
  have all: "(\<forall>k. getItem_result e k = None) \<longrightarrow>
          validHistory (storage w') = sliceFrom (- 50) (validHistory (storage w) @ [pre, final])
          \<and> (length (validHistory (storage w)) \<le> 48 \<longrightarrow>
               validHistory (storage w') = validHistory (storage w) @ [pre, final])"
  proof
    assume ok: "\<forall>k. getItem_result e k = None"
    have v: "validHistory (storage w')
             = sliceFrom (- 50) (validHistory (storage w) @ [pre, final])"
      unfolding st2 using ok by (simp add: sliceFrom_twice)
    moreover have "length (validHistory (storage w)) \<le> 48 \<longrightarrow>
               validHistory (storage w') = validHistory (storage w) @ [pre, final]"
      unfolding v by (simp add: sliceFrom_last50)
    ultimately show "validHistory (storage w')
             = sliceFrom (- 50) (validHistory (storage w) @ [pre, final])
          \<and> (length (validHistory (storage w)) \<le> 48 \<longrightarrow>
               validHistory (storage w') = validHistory (storage w) @ [pre, final])"
      by blast
  qed
  from t wa st1 st2 n2 gl all show ?thesis
    unfolding Let_def by blast
qed

theorem endSession_saves_twice_witness:
  "\<not> isl (fst (endSession (steadyEnv ''ok'') (MessageArray [userSays ''hello'']) freshWorld))
   \<and> length (validHistory (storage (snd
        (endSession (steadyEnv ''ok'') (MessageArray [userSays ''hello'']) freshWorld)))) = 2"
proof -
  define r where "r = endSession (steadyEnv ''ok'') (MessageArray [userSays ''hello'']) freshWorld"
  have ok: "\<not> isl (fst r)" unfolding r_def by code_simp
  then obtain final where "fst r = Inr final" by (cases "fst r") auto
  then have run: "endSession (steadyEnv ''ok'') (MessageArray [userSays ''hello'']) freshWorld
                  = (Inr final, snd r)"
    unfolding r_def by (metis prod.collapse)
  have get: "\<forall>k. getItem_result (steadyEnv ''ok'') k = None" by (simp add: steadyEnv_def)
  have empty: "validHistory (storage freshWorld) = []"
    by (simp add: freshWorld_def validHistory_def)
  from endSession_saves_twice[OF run] get obtain pre where
    "validHistory (storage (snd r)) = sliceFrom (- 50) (validHistory (storage freshWorld) @ [pre, final])"
    by blast
  then have "length (validHistory (storage (snd r))) = 2"
    unfolding empty by (simp add: sliceFrom_last50)
  with ok show ?thesis unfolding r_def by blast
qed

end
